theory Spec2Isabelle
  imports Main
begin

section \<open>Context extraction of docx2python (docx\_context.py)\<close>

text \<open>
  A shallow embedding of \<^verbatim>\<open>src/docx2python/docx_context.py\<close>: the functions
  \<^verbatim>\<open>collect_numFmts\<close>, \<^verbatim>\<open>collect_rels\<close>, \<^verbatim>\<open>collect_docProps\<close>,
  \<^verbatim>\<open>get_context\<close> and \<^verbatim>\<open>pull_image_files\<close>.

  Python exceptions are values of the type \<open>error\<close>; a function that may raise returns
  \<open>error + 'a\<close> with \<open>Inl\<close> for the exception. Python strings are HOL strings; the
  model covers ASCII text (a HOL \<open>char\<close> is one byte, a Python character a code point).
\<close>

subsection \<open>Exceptions\<close>

datatype error = KeyError | AttributeError | TypeError | ParseError | OSError

subsection \<open>Python dictionaries\<close>

text \<open>
  A \<^verbatim>\<open>dict\<close> keeps its keys in insertion order, and assigning to a key that is there
  keeps the key's position. It is an association list with one pair for each key.
  \<open>dict_set d k v\<close> is \<^verbatim>\<open>d[k] = v\<close>, \<open>getitem d k\<close> is the read \<^verbatim>\<open>d[k]\<close>,
  which raises \<^verbatim>\<open>KeyError\<close> for a key that is not there.
\<close>

type_synonym ('k, 'v) dict = "('k \<times> 'v) list"

fun dict_set :: "('k, 'v) dict \<Rightarrow> 'k \<Rightarrow> 'v \<Rightarrow> ('k, 'v) dict" where
  "dict_set [] k v = [(k, v)]"
| "dict_set ((k', v') # d) k v =
     (if k' = k then (k, v) # d else (k', v') # dict_set d k v)"

definition getitem :: "('k, 'v) dict \<Rightarrow> 'k \<Rightarrow> error + 'v" where
  "getitem d k = (case map_of d k of None \<Rightarrow> Inl KeyError | Some v \<Rightarrow> Inr v)"

definition keys :: "('k, 'v) dict \<Rightarrow> 'k list" where
  "keys d = map fst d"

text \<open>A dict comprehension \<^verbatim>\<open>{k: v for ...}\<close> assigns the pairs in order.\<close>

definition dict_of :: "('k \<times> 'v) list \<Rightarrow> ('k, 'v) dict" where
  "dict_of kvs = fold (\<lambda>(k, v) d. dict_set d k v) kvs []"

subsection \<open>Loops that may raise\<close>

text \<open>
  \<open>for_loop body s xs\<close> is \<^verbatim>\<open>for x in xs: body\<close> on the state \<open>s\<close>; the first
  exception of the body ends the loop and is the result.
\<close>

fun for_loop :: "('s \<Rightarrow> 'a \<Rightarrow> error + 's) \<Rightarrow> 's \<Rightarrow> 'a list \<Rightarrow> error + 's" where
  "for_loop body s [] = Inr s"
| "for_loop body s (x # xs) =
     (case body s x of Inl e \<Rightarrow> Inl e | Inr s' \<Rightarrow> for_loop body s' xs)"

subsection \<open>Element trees\<close>

text \<open>
  What \<^verbatim>\<open>xml.etree.ElementTree\<close> gives: an element has a namespace-qualified tag, a
  dict of attributes, a text (\<^verbatim>\<open>None\<close> when there is none) and its children in
  document order. \<open>findall e t\<close> is \<^verbatim>\<open>e.findall(t)\<close> for a tag \<open>t\<close>: the direct
  children with that tag, in document order; \<open>find_elem e t\<close> is \<^verbatim>\<open>e.find(t)\<close>, the
  first of them or \<^verbatim>\<open>None\<close>.
\<close>

datatype element =
  Element (tag: string) (attrib: "(string, string) dict") (text_of: "string option")
    (children: "element list")

definition findall :: "element \<Rightarrow> string \<Rightarrow> element list" where
  "findall e t = filter (\<lambda>c. tag c = t) (children e)"

definition find_elem :: "element \<Rightarrow> string \<Rightarrow> element option" where
  "find_elem e t = (case findall e t of [] \<Rightarrow> None | c # _ \<Rightarrow> Some c)"

text \<open>
  The XML parser \<^verbatim>\<open>ElementTree.fromstring\<close> and the tag table \<^verbatim>\<open>namespace.qn\<close>
  (which expands \<^verbatim>\<open>w:lvl\<close> to \<^verbatim>\<open>{namespace}lvl\<close>) are outside the file: every
  function that uses them takes them as the parameters \<open>fromstring\<close> and \<open>qn\<close>.
\<close>

type_synonym parser = "string \<Rightarrow> error + element"

subsection \<open>\<^verbatim>\<open>collect_numFmts\<close>\<close>

text \<open>
  The body of the inner loop (source line 88--89): the format of one \<^verbatim>\<open>w:lvl\<close>.
  \<^verbatim>\<open>lvl.find(...)\<close> is \<^verbatim>\<open>None\<close> when the level has no \<^verbatim>\<open>w:numFmt\<close> child, and
  \<^verbatim>\<open>None.attrib\<close> raises \<^verbatim>\<open>AttributeError\<close>.
\<close>

definition lvl_numFmt :: "(string \<Rightarrow> string) \<Rightarrow> element \<Rightarrow> error + string" where
  "lvl_numFmt qn lvl =
     (case find_elem lvl (qn ''w:numFmt'') of
        None \<Rightarrow> Inl AttributeError
      | Some numFmt \<Rightarrow> getitem (attrib numFmt) (qn ''w:val''))"

definition lvl_body ::
  "(string \<Rightarrow> string) \<Rightarrow> string \<Rightarrow> (string, string list) dict \<Rightarrow> element
     \<Rightarrow> error + (string, string list) dict" where
  "lvl_body qn id' d lvl =
     (case getitem d id' of
        Inl e \<Rightarrow> Inl e
      | Inr fmts \<Rightarrow>
          (case lvl_numFmt qn lvl of
             Inl e \<Rightarrow> Inl e
           | Inr v \<Rightarrow> Inr (dict_set d id' (fmts @ [v]))))"

text \<open>The body of the first loop (source lines 85--89).\<close>

definition abstractNum_body ::
  "(string \<Rightarrow> string) \<Rightarrow> (string, string list) dict \<Rightarrow> element
     \<Rightarrow> error + (string, string list) dict" where
  "abstractNum_body qn d abstractNum =
     (case getitem (attrib abstractNum) (qn ''w:abstractNumId'') of
        Inl e \<Rightarrow> Inl e
      | Inr id' \<Rightarrow>
          for_loop (lvl_body qn id') (dict_set d id' []) (findall abstractNum (qn ''w:lvl'')))"

text \<open>The first loop (source lines 81--89): the dict \<^verbatim>\<open>abstractNumId2numFmts\<close>.\<close>

definition abstractNumId2numFmts ::
  "(string \<Rightarrow> string) \<Rightarrow> element \<Rightarrow> error + (string, string list) dict" where
  "abstractNumId2numFmts qn root =
     for_loop (abstractNum_body qn) [] (findall root (qn ''w:abstractNum''))"

text \<open>The body of the second loop (source lines 93--95).\<close>

definition num_abstractNumId :: "(string \<Rightarrow> string) \<Rightarrow> element \<Rightarrow> error + string" where
  "num_abstractNumId qn num =
     (case find_elem num (qn ''w:abstractNumId'') of
        None \<Rightarrow> Inl AttributeError
      | Some r \<Rightarrow> getitem (attrib r) (qn ''w:val''))"

definition num_body ::
  "(string \<Rightarrow> string) \<Rightarrow> (string, string list) dict \<Rightarrow> (string, string list) dict
     \<Rightarrow> element \<Rightarrow> error + (string, string list) dict" where
  "num_body qn table d num =
     (case getitem (attrib num) (qn ''w:numId'') of
        Inl e \<Rightarrow> Inl e
      | Inr numId \<Rightarrow>
          (case num_abstractNumId qn num of
             Inl e \<Rightarrow> Inl e
           | Inr abstractNumId \<Rightarrow>
               (case getitem table abstractNumId of
                  Inl e \<Rightarrow> Inl e
                | Inr fmts \<Rightarrow> Inr (dict_set d numId fmts))))"

definition numId2numFmts_of ::
  "(string \<Rightarrow> string) \<Rightarrow> (string, string list) dict \<Rightarrow> element
     \<Rightarrow> error + (string, string list) dict" where
  "numId2numFmts_of qn table root =
     for_loop (num_body qn table) [] (findall root (qn ''w:num''))"

definition collect_numFmts ::
  "parser \<Rightarrow> (string \<Rightarrow> string) \<Rightarrow> string \<Rightarrow> error + (string, string list) dict" where
  "collect_numFmts fromstring qn xml =
     (case fromstring xml of
        Inl e \<Rightarrow> Inl e
      | Inr root \<Rightarrow>
          (case abstractNumId2numFmts qn root of
             Inl e \<Rightarrow> Inl e
           | Inr table \<Rightarrow> numId2numFmts_of qn table root))"

subsection \<open>Paths\<close>

text \<open>
  \<^verbatim>\<open>os.path.basename\<close> and \<^verbatim>\<open>os.path.dirname\<close> as \<^verbatim>\<open>posixpath\<close> defines them (part
  names of an archive are separated by \<^verbatim>\<open>/\<close>): with \<^verbatim>\<open>i = p.rfind('/') + 1\<close>, the
  base name is \<^verbatim>\<open>p[i:]\<close>, and the directory is \<^verbatim>\<open>p[:i]\<close> without its trailing
  slashes, unless it consists of slashes only.
\<close>

definition basename :: "string \<Rightarrow> string" where
  "basename p = rev (takeWhile (\<lambda>c. c \<noteq> CHR ''/'') (rev p))"

definition dirname :: "string \<Rightarrow> string" where
  "dirname p =
     (let head = rev (dropWhile (\<lambda>c. c \<noteq> CHR ''/'') (rev p))
      in if head \<noteq> [] \<and> head \<noteq> replicate (length head) (CHR ''/'')
         then rev (dropWhile (\<lambda>c. c = CHR ''/'') (rev head))
         else head)"

subsection \<open>Archives\<close>

text \<open>
  A \<^verbatim>\<open>zipfile.ZipFile\<close> open for reading: its entries in archive order, each a name and
  its bytes. \<^verbatim>\<open>namelist()\<close> lists the names in order; \<^verbatim>\<open>read(name)\<close> raises
  \<^verbatim>\<open>KeyError\<close> for a name that is not there and, of two entries with one name, reads
  the later one.
\<close>

type_synonym zipfile = "(string \<times> string) list"

definition namelist :: "zipfile \<Rightarrow> string list" where
  "namelist zipf = map fst zipf"

definition read :: "zipfile \<Rightarrow> string \<Rightarrow> error + string" where
  "read zipf name = (case map_of (rev zipf) name of None \<Rightarrow> Inl KeyError | Some b \<Rightarrow> Inr b)"

subsection \<open>\<^verbatim>\<open>collect_rels\<close>\<close>

text \<open>\<open>is_rels x\<close> is the test \<^verbatim>\<open>x[-5:] == ".rels"\<close> of source line 166.\<close>

definition is_rels :: "string \<Rightarrow> bool" where
  "is_rels x = (drop (length x - 5) x = ''.rels'')"

definition collect_rels_body ::
  "parser \<Rightarrow> zipfile \<Rightarrow> (string, (string, string) dict list) dict \<Rightarrow> string
     \<Rightarrow> error + (string, (string, string) dict list) dict" where
  "collect_rels_body fromstring zipf path2rels rels =
     (case read zipf rels of
        Inl e \<Rightarrow> Inl e
      | Inr xml \<Rightarrow>
          (case fromstring xml of
             Inl e \<Rightarrow> Inl e
           | Inr root \<Rightarrow> Inr (dict_set path2rels rels (map attrib (children root)))))"

definition collect_rels ::
  "parser \<Rightarrow> zipfile \<Rightarrow> error + (string, (string, string) dict list) dict" where
  "collect_rels fromstring zipf =
     for_loop (collect_rels_body fromstring zipf) [] (filter is_rels (namelist zipf))"

subsection \<open>\<^verbatim>\<open>collect_docProps\<close>\<close>






subsection \<open>\<^verbatim>\<open>get_context\<close>\<close>

text \<open>
  A record of \<^verbatim>\<open>context["files"]\<close> is a dict: the attributes of a relationship (strings),
  the key \<^verbatim>\<open>dir\<close> (a string) and, once linked, the key \<^verbatim>\<open>rels\<close> (a list of attribute
  dicts). The context is a dict with the keys \<^verbatim>\<open>files\<close>, \<^verbatim>\<open>numId2numFmts\<close> and
  \<^verbatim>\<open>numId2count\<close>. A \<^verbatim>\<open>defaultdict(lambda: 0)\<close> is a dict whose read of a missing key
  stores 0 under the key and gives 0: \<open>dd_getitem\<close> returns the value and the dict.
\<close>

datatype file_value = Str string | Rels "(string, string) dict list"

type_synonym "file" = "(string, file_value) dict"

type_synonym defaultdict = "(int, int) dict"

definition dd_getitem :: "defaultdict \<Rightarrow> int \<Rightarrow> int \<times> defaultdict" where
  "dd_getitem d k = (case map_of d k of Some v \<Rightarrow> (v, d) | None \<Rightarrow> (0, dict_set d k 0))"

datatype ctx_value =
  Files "file list" | NumFmts "(string, string list) dict" | Counts "(string, defaultdict) dict"

type_synonym "context" = "(string, ctx_value) dict"

text \<open>
  Source lines 247--249: \<^verbatim>\<open>{**x, "dir": os.path.dirname(k)}\<close> copies the attributes
  of the relationship and sets the key \<^verbatim>\<open>dir\<close>.
\<close>

definition expand_file :: "string \<Rightarrow> (string, string) dict \<Rightarrow> file" where
  "expand_file k x = dict_set (map (\<lambda>(a, b). (a, Str b)) x) ''dir'' (Str (dirname k))"

definition files_of :: "(string, (string, string) dict list) dict \<Rightarrow> file list" where
  "files_of path2rels = concat (map (\<lambda>(k, v). map (expand_file k) v) path2rels)"

text \<open>
  Source lines 250--253. \<^verbatim>\<open>attribute_dicts.get_path_rels\<close> is outside the file and is
  the parameter \<open>get_path_rels\<close>; \<^verbatim>\<open>suppress(KeyError)\<close> ends the body on a
  \<^verbatim>\<open>KeyError\<close>, of the helper or of the read of \<^verbatim>\<open>path2rels\<close>, and lets any other
  exception through.
\<close>

definition link_rels ::
  "(file \<Rightarrow> error + string) \<Rightarrow> (string, (string, string) dict list) dict \<Rightarrow> file
     \<Rightarrow> error + file" where
  "link_rels get_path_rels path2rels file =
     (case get_path_rels file of
        Inl e \<Rightarrow> if e = KeyError then Inr file else Inl e
      | Inr p \<Rightarrow>
          (case getitem path2rels p of
             Inl e \<Rightarrow> if e = KeyError then Inr file else Inl e
           | Inr rels \<Rightarrow> Inr (dict_set file ''rels'' (Rels rels))))"

definition link_body ::
  "(file \<Rightarrow> error + string) \<Rightarrow> (string, (string, string) dict list) dict \<Rightarrow> file list
     \<Rightarrow> file \<Rightarrow> error + file list" where
  "link_body get_path_rels path2rels linked file =
     (case link_rels get_path_rels path2rels file of
        Inl e \<Rightarrow> Inl e
      | Inr file' \<Rightarrow> Inr (linked @ [file']))"

text \<open>The body of the \<^verbatim>\<open>try\<close> up to the first statement that cannot raise (line 258).\<close>

definition try_numFmts ::
  "parser \<Rightarrow> (string \<Rightarrow> string) \<Rightarrow> zipfile \<Rightarrow> error + (string, string list) dict" where
  "try_numFmts fromstring qn zipf =
     (case read zipf ''word/numbering.xml'' of
        Inl e \<Rightarrow> Inl e
      | Inr xml \<Rightarrow> collect_numFmts fromstring qn xml)"

definition get_context ::
  "parser \<Rightarrow> (string \<Rightarrow> string) \<Rightarrow> (file \<Rightarrow> error + string) \<Rightarrow> zipfile \<Rightarrow> error + context" where
  "get_context fromstring qn get_path_rels zipf =
     (case collect_rels fromstring zipf of
        Inl e \<Rightarrow> Inl e
      | Inr path2rels \<Rightarrow>
          (case for_loop (link_body get_path_rels path2rels) [] (files_of path2rels) of
             Inl e \<Rightarrow> Inl e
           | Inr files \<Rightarrow>
               (let context = [(''files'', Files files)]
                in case try_numFmts fromstring qn zipf of
                     Inl e \<Rightarrow> if e = KeyError then Inr context else Inl e
                   | Inr numId2numFmts \<Rightarrow>
                       Inr (dict_set
                              (dict_set context ''numId2numFmts'' (NumFmts numId2numFmts))
                              ''numId2count''
                              (Counts (dict_of (map (\<lambda>x. (x, [])) (keys numId2numFmts))))))))"

subsection \<open>\<^verbatim>\<open>pull_image_files\<close>\<close>

text \<open>
  \<^verbatim>\<open>attribute_dicts.filter_files_by_type\<close> and \<^verbatim>\<open>attribute_dicts.get_path\<close> are outside
  the file and are the parameters \<open>filter_files_by_type\<close> and \<open>get_path\<close>. The
  comprehension (source lines 289--292) evaluates the key, then the value, and assigns;
  \<^verbatim>\<open>os.path.basename\<close> of a value that is not a string raises \<^verbatim>\<open>TypeError\<close>.
\<close>

definition image_body ::
  "(file \<Rightarrow> error + string) \<Rightarrow> zipfile \<Rightarrow> (string, string) dict \<Rightarrow> file
     \<Rightarrow> error + (string, string) dict" where
  "image_body get_path zipf images x =
     (case getitem x ''Target'' of
        Inl e \<Rightarrow> Inl e
      | Inr (Rels _) \<Rightarrow> Inl TypeError
      | Inr (Str target) \<Rightarrow>
          (case get_path x of
             Inl e \<Rightarrow> Inl e
           | Inr path \<Rightarrow>
               (case read zipf path of
                  Inl e \<Rightarrow> Inl e
                | Inr image_bytes \<Rightarrow> Inr (dict_set images (basename target) image_bytes))))"

text \<open>
  Source lines 293--297 write the images to the directory: the file system is outside
  the model, and the parameter \<open>write_images\<close> stands for these lines; it may raise.
\<close>

definition pull_image_files ::
  "(file list \<Rightarrow> string \<Rightarrow> error + file list) \<Rightarrow> (file \<Rightarrow> error + string)
     \<Rightarrow> (string \<Rightarrow> (string, string) dict \<Rightarrow> error + unit)
     \<Rightarrow> zipfile \<Rightarrow> context \<Rightarrow> string option \<Rightarrow> error + (string, string) dict" where
  "pull_image_files filter_files_by_type get_path write_images zipf context image_directory =
     (case getitem context ''files'' of
        Inl e \<Rightarrow> Inl e
      | Inr (NumFmts _) \<Rightarrow> Inl TypeError
      | Inr (Counts _) \<Rightarrow> Inl TypeError
      | Inr (Files files) \<Rightarrow>
          (case filter_files_by_type files ''image'' of
             Inl e \<Rightarrow> Inl e
           | Inr image_files \<Rightarrow>
               (case for_loop (image_body get_path zipf) [] image_files of
                  Inl e \<Rightarrow> Inl e
                | Inr images \<Rightarrow>
                    (case image_directory of
                       None \<Rightarrow> Inr images
                     | Some directory \<Rightarrow>
                         (case write_images directory images of
                            Inl e \<Rightarrow> Inl e
                          | Inr _ \<Rightarrow> Inr images)))))"

section \<open>Notions of the specification\<close>

subsection \<open>Results of a loop, element by element\<close>

text \<open>
  \<open>map_raise f xs\<close> applies \<open>f\<close> to the elements in order and stops at the first
  exception. The loops of the file that fill a dict assign one pair for each element:
  \<open>abstractNum_entry\<close>, \<open>num_entry\<close>, \<open>rels_entry\<close>, \<open>docProp_entry\<close> and
  \<open>image_entry\<close> are the pairs, and the lemmas below relate each loop to them.
\<close>

fun map_raise :: "('a \<Rightarrow> error + 'b) \<Rightarrow> 'a list \<Rightarrow> error + 'b list" where
  "map_raise f [] = Inr []"
| "map_raise f (x # xs) =
     (case f x of
        Inl e \<Rightarrow> Inl e
      | Inr y \<Rightarrow> (case map_raise f xs of Inl e \<Rightarrow> Inl e | Inr ys \<Rightarrow> Inr (y # ys)))"

definition abstractNum_entry ::
  "(string \<Rightarrow> string) \<Rightarrow> element \<Rightarrow> error + string \<times> string list" where
  "abstractNum_entry qn abstractNum =
     (case getitem (attrib abstractNum) (qn ''w:abstractNumId'') of
        Inl e \<Rightarrow> Inl e
      | Inr id' \<Rightarrow>
          (case map_raise (lvl_numFmt qn) (findall abstractNum (qn ''w:lvl'')) of
             Inl e \<Rightarrow> Inl e
           | Inr fmts \<Rightarrow> Inr (id', fmts)))"

definition num_entry ::
  "(string \<Rightarrow> string) \<Rightarrow> (string, string list) dict \<Rightarrow> element
     \<Rightarrow> error + string \<times> string list" where
  "num_entry qn table num =
     (case getitem (attrib num) (qn ''w:numId'') of
        Inl e \<Rightarrow> Inl e
      | Inr numId \<Rightarrow>
          (case num_abstractNumId qn num of
             Inl e \<Rightarrow> Inl e
           | Inr abstractNumId \<Rightarrow>
               (case getitem table abstractNumId of
                  Inl e \<Rightarrow> Inl e
                | Inr fmts \<Rightarrow> Inr (numId, fmts))))"

definition rels_entry ::
  "parser \<Rightarrow> zipfile \<Rightarrow> string \<Rightarrow> error + string \<times> (string, string) dict list" where
  "rels_entry fromstring zipf rels =
     (case read zipf rels of
        Inl e \<Rightarrow> Inl e
      | Inr xml \<Rightarrow>
          (case fromstring xml of
             Inl e \<Rightarrow> Inl e
           | Inr root \<Rightarrow> Inr (rels, map attrib (children root))))"


definition image_entry ::
  "(file \<Rightarrow> error + string) \<Rightarrow> zipfile \<Rightarrow> file \<Rightarrow> error + string \<times> string" where
  "image_entry get_path zipf x =
     (case getitem x ''Target'' of
        Inl e \<Rightarrow> Inl e
      | Inr (Rels _) \<Rightarrow> Inl TypeError
      | Inr (Str target) \<Rightarrow>
          (case get_path x of
             Inl e \<Rightarrow> Inl e
           | Inr path \<Rightarrow>
               (case read zipf path of
                  Inl e \<Rightarrow> Inl e
                | Inr image_bytes \<Rightarrow> Inr (basename target, image_bytes))))"

subsection \<open>Declared levels\<close>

text \<open>
  The level index that a \<^verbatim>\<open>w:lvl\<close> element declares is its attribute \<^verbatim>\<open>w:ilvl\<close>, a
  decimal numeral; \<open>str n\<close> is the numeral of \<open>n\<close>. \<open>level_numFmt qn a i\<close> is the
  format that the definition \<open>a\<close> declares at level \<open>i\<close>: the format of its first
  \<^verbatim>\<open>w:lvl\<close> child with that index. \<open>contiguous_levels qn a n\<close> says that \<open>a\<close> declares
  the levels \<open>0..n\<close>, each once, in any order of the document.
\<close>

function str :: "nat \<Rightarrow> string" where
  "str n =
     (if n < 10 then [''0123456789'' ! n]
      else str (n div 10) @ [''0123456789'' ! (n mod 10)])"
  by pat_completeness auto
termination
  by (relation "measure id") auto

declare str.simps [simp del]

definition ilvl :: "(string \<Rightarrow> string) \<Rightarrow> element \<Rightarrow> string option" where
  "ilvl qn lvl = map_of (attrib lvl) (qn ''w:ilvl'')"

definition level_numFmt :: "(string \<Rightarrow> string) \<Rightarrow> element \<Rightarrow> nat \<Rightarrow> string option" where
  "level_numFmt qn abstractNum i =
     (case filter (\<lambda>lvl. ilvl qn lvl = Some (str i)) (findall abstractNum (qn ''w:lvl'')) of
        [] \<Rightarrow> None
      | lvl # _ \<Rightarrow> (case lvl_numFmt qn lvl of Inl e \<Rightarrow> None | Inr v \<Rightarrow> Some v))"

definition contiguous_levels :: "(string \<Rightarrow> string) \<Rightarrow> element \<Rightarrow> nat \<Rightarrow> bool" where
  "contiguous_levels qn abstractNum n =
     (let lvls = findall abstractNum (qn ''w:lvl'')
      in length lvls = Suc n \<and>
         set (map (ilvl qn) lvls) = set (map (\<lambda>i. Some (str i)) [0..<Suc n]))"

subsection \<open>The directory of the referencing part\<close>

text \<open>
  The descriptor of a part \<^verbatim>\<open>P\<close> lives in the \<^verbatim>\<open>_rels\<close> subfolder of the directory
  that contains \<^verbatim>\<open>P\<close>: for the descriptor \<open>k\<close>, that directory is the directory of
  the directory of \<open>k\<close>.
\<close>

definition referencing_dir :: "string \<Rightarrow> string" where
  "referencing_dir k = dirname (dirname k)"

section \<open>Helpers outside the file, and example documents\<close>

text \<open>
  Modelled from the spec: \<^verbatim>\<open>attribute_dicts.get_path\<close>, \<^verbatim>\<open>get_path_rels\<close> and
  \<^verbatim>\<open>filter_files_by_type\<close> are imported by the file and not part of it. After the
  specification, the target of a record resolves under the directory of the referencing
  part, which is the record's \<^verbatim>\<open>dir\<close> without the \<^verbatim>\<open>_rels\<close> folder; the descriptor
  of a part is in the \<^verbatim>\<open>_rels\<close> subfolder of its directory; a record is an image when
  its type ends in \<^verbatim>\<open>image\<close>. The theorems take these helpers as parameters; the
  definitions here instantiate them on examples.
\<close>

definition join_path :: "string \<Rightarrow> string \<Rightarrow> string" where
  "join_path d p = (if d = [] then p else d @ ''/'' @ p)"

definition spec_get_path :: "file \<Rightarrow> error + string" where
  "spec_get_path x =
     (case getitem x ''dir'' of
        Inl e \<Rightarrow> Inl e
      | Inr (Rels _) \<Rightarrow> Inl TypeError
      | Inr (Str d) \<Rightarrow>
          (case getitem x ''Target'' of
             Inl e \<Rightarrow> Inl e
           | Inr (Rels _) \<Rightarrow> Inl TypeError
           | Inr (Str target) \<Rightarrow> Inr (join_path (dirname d) target)))"

definition spec_get_path_rels :: "file \<Rightarrow> error + string" where
  "spec_get_path_rels x =
     (case spec_get_path x of
        Inl e \<Rightarrow> Inl e
      | Inr p \<Rightarrow> Inr (join_path (dirname p) (''_rels/'' @ basename p @ ''.rels'')))"

definition spec_filter_files_by_type :: "file list \<Rightarrow> string \<Rightarrow> error + file list" where
  "spec_filter_files_by_type files type' =
     Inr (filter (\<lambda>x. case getitem x ''Type'' of
                           Inr (Str t) \<Rightarrow> basename t = type'
                         | _ \<Rightarrow> False) files)"

definition no_write :: "string \<Rightarrow> (string, string) dict \<Rightarrow> error + unit" where
  "no_write directory images = Inr ()"

text \<open>A tag table for the examples: the prefix \<^verbatim>\<open>w:\<close> becomes the namespace \<^verbatim>\<open>{w}\<close>.\<close>

definition example_qn :: "string \<Rightarrow> string" where
  "example_qn t = ''{w}'' @ drop 2 t"

definition w_lvl :: "string \<Rightarrow> string \<Rightarrow> element" where
  "w_lvl i fmt =
     Element ''{w}lvl'' [(''{w}ilvl'', i)] None
       [Element ''{w}numFmt'' [(''{w}val'', fmt)] None []]"

definition w_abstractNum :: "string \<Rightarrow> element list \<Rightarrow> element" where
  "w_abstractNum i lvls = Element ''{w}abstractNum'' [(''{w}abstractNumId'', i)] None lvls"

definition w_num :: "string \<Rightarrow> string \<Rightarrow> element" where
  "w_num i r =
     Element ''{w}num'' [(''{w}numId'', i)] None
       [Element ''{w}abstractNumId'' [(''{w}val'', r)] None []]"

definition w_numbering :: "element list \<Rightarrow> element" where
  "w_numbering es = Element ''{w}numbering'' [] None es"

text \<open>The numbering part of the docstring of \<^verbatim>\<open>collect_numFmts\<close>.\<close>

definition numbering_doc :: element where
  "numbering_doc =
     w_numbering
       [w_abstractNum ''0'' [w_lvl ''0'' ''decimal'', w_lvl ''1'' ''lowerLetter''],
        w_abstractNum ''5'' [w_lvl ''0'' ''bullet''],
        w_num ''1'' ''0'', w_num ''2'' ''5'']"

text \<open>A definition that declares the levels 0 and 2 and no level 1.\<close>

definition gap_abstractNum :: element where
  "gap_abstractNum = w_abstractNum ''0'' [w_lvl ''0'' ''decimal'', w_lvl ''2'' ''bullet'']"

definition numbering_gap :: element where
  "numbering_gap = w_numbering [gap_abstractNum, w_num ''1'' ''0'']"

text \<open>A definition that declares the levels 0 and 1, level 1 first.\<close>

definition swapped_abstractNum :: element where
  "swapped_abstractNum = w_abstractNum ''0'' [w_lvl ''1'' ''bullet'', w_lvl ''0'' ''decimal'']"

definition numbering_swapped :: element where
  "numbering_swapped = w_numbering [swapped_abstractNum, w_num ''1'' ''0'']"

text \<open>A \<^verbatim>\<open>w:num\<close> that refers to the abstract definition 7, which is not there.\<close>

definition numbering_dangling :: element where
  "numbering_dangling =
     w_numbering [w_abstractNum ''0'' [w_lvl ''0'' ''decimal''], w_num ''1'' ''7'']"

text \<open>A level without a \<^verbatim>\<open>w:numFmt\<close> child.\<close>

definition numbering_noFmt :: element where
  "numbering_noFmt =
     w_numbering
       [w_abstractNum ''0'' [Element ''{w}lvl'' [(''{w}ilvl'', ''0'')] None []],
        w_num ''1'' ''0'']"

definition relationship :: "string \<Rightarrow> string \<Rightarrow> string \<Rightarrow> element" where
  "relationship i t target =
     Element ''{r}Relationship'' [(''Id'', i), (''Type'', t), (''Target'', target)] None []"

definition root_rels :: element where
  "root_rels =
     Element ''{r}Relationships'' [] None
       [relationship ''rId1'' ''http://x/officeDocument'' ''word/document.xml'']"

definition document_rels :: element where
  "document_rels =
     Element ''{r}Relationships'' [] None
       [relationship ''rId1'' ''http://x/image'' ''media/image1.png'',
        relationship ''rId2'' ''http://x/header'' ''header1.xml'']"

definition header_rels :: element where
  "header_rels =
     Element ''{r}Relationships'' [] None
       [relationship ''rId1'' ''http://x/image'' ''art/image1.png'']"

text \<open>Core properties, and core properties with a child whose tag has no namespace.\<close>

definition core_doc :: element where
  "core_doc =
     Element ''{cp}coreProperties'' [] None
       [Element ''{dc}creator'' [] (Some ''Shay Hill'') [],
        Element ''{cp}revision'' [] (Some ''6'') []]"

definition core_unqualified :: element where
  "core_unqualified =
     Element ''{cp}coreProperties'' [] None
       [Element ''{dc}creator'' [] (Some ''Shay Hill'') [],
        Element ''title'' [] (Some ''Report'') []]"

text \<open>
  The parser of the examples: the bytes of a part are a name for its tree, and every
  other string is not well-formed XML.
\<close>

definition example_fromstring :: parser where
  "example_fromstring xml =
     (case map_of
        [(''<numbering>'', numbering_doc), (''<gap>'', numbering_gap),
         (''<swapped>'', numbering_swapped), (''<dangling>'', numbering_dangling),
         (''<noFmt>'', numbering_noFmt), (''<root_rels>'', root_rels),
         (''<document_rels>'', document_rels), (''<header_rels>'', header_rels),
         (''<core>'', core_doc), (''<unqualified>'', core_unqualified)] xml of
        None \<Rightarrow> Inl ParseError
      | Some root \<Rightarrow> Inr root)"

text \<open>
  Archives: a document with lists and images, the same without its numbering part, one
  whose numbering part has a dangling reference, one whose numbering part has a level
  without format, and one with a single descriptor.
\<close>

definition basic_docx :: zipfile where
  "basic_docx =
     [(''_rels/.rels'', ''<root_rels>''),
      (''word/_rels/document.xml.rels'', ''<document_rels>''),
      (''word/_rels/header1.xml.rels'', ''<header_rels>''),
      (''word/document.xml'', ''<document>''),
      (''word/header1.xml'', ''<header>''),
      (''word/media/image1.png'', ''PNG1''),
      (''word/art/image1.png'', ''PNG2'')]"

definition example_docx :: zipfile where
  "example_docx = basic_docx @ [(''word/numbering.xml'', ''<numbering>'')]"

definition dangling_docx :: zipfile where
  "dangling_docx = basic_docx @ [(''word/numbering.xml'', ''<dangling>'')]"

definition noFmt_docx :: zipfile where
  "noFmt_docx = basic_docx @ [(''word/numbering.xml'', ''<noFmt>'')]"

definition document_only_docx :: zipfile where
  "document_only_docx = [(''word/_rels/document.xml.rels'', ''<document_rels>'')]"

text \<open>The contexts that \<^verbatim>\<open>get_context\<close> assembles for these archives.\<close>

definition basic_files :: "file list" where
  "basic_files =
     [[(''Id'', Str ''rId1''), (''Type'', Str ''http://x/officeDocument''),
       (''Target'', Str ''word/document.xml''), (''dir'', Str ''_rels''),
       (''rels'',
        Rels [[(''Id'', ''rId1''), (''Type'', ''http://x/image''),
               (''Target'', ''media/image1.png'')],
              [(''Id'', ''rId2''), (''Type'', ''http://x/header''),
               (''Target'', ''header1.xml'')]])],
      [(''Id'', Str ''rId1''), (''Type'', Str ''http://x/image''),
       (''Target'', Str ''media/image1.png''), (''dir'', Str ''word/_rels'')],
      [(''Id'', Str ''rId2''), (''Type'', Str ''http://x/header''),
       (''Target'', Str ''header1.xml''), (''dir'', Str ''word/_rels''),
       (''rels'',
        Rels [[(''Id'', ''rId1''), (''Type'', ''http://x/image''),
               (''Target'', ''art/image1.png'')]])],
      [(''Id'', Str ''rId1''), (''Type'', Str ''http://x/image''),
       (''Target'', Str ''art/image1.png''), (''dir'', Str ''word/_rels'')]]"

definition basic_context :: "context" where
  "basic_context = [(''files'', Files basic_files)]"

definition example_numFmts :: "(string, string list) dict" where
  "example_numFmts = [(''1'', [''decimal'', ''lowerLetter'']), (''2'', [''bullet''])]"

definition example_context :: "context" where
  "example_context =
     [(''files'', Files basic_files), (''numId2numFmts'', NumFmts example_numFmts),
      (''numId2count'', Counts [(''1'', []), (''2'', [])])]"

text \<open>
  An archive with a document and no descriptor part, and what \<^verbatim>\<open>collect_rels\<close> and
  \<^verbatim>\<open>get_context\<close> give for the archive with the single descriptor of the document.
\<close>

definition no_rels_docx :: zipfile where
  "no_rels_docx = [(''word/document.xml'', ''<document>'')]"

definition document_only_rels :: "(string, (string, string) dict list) dict" where
  "document_only_rels =
     [(''word/_rels/document.xml.rels'',
       [[(''Id'', ''rId1''), (''Type'', ''http://x/image''),
         (''Target'', ''media/image1.png'')],
        [(''Id'', ''rId2''), (''Type'', ''http://x/header''),
         (''Target'', ''header1.xml'')]])]"

definition document_only_files :: "file list" where
  "document_only_files =
     [[(''Id'', Str ''rId1''), (''Type'', Str ''http://x/image''),
       (''Target'', Str ''media/image1.png''), (''dir'', Str ''word/_rels'')],
      [(''Id'', Str ''rId2''), (''Type'', Str ''http://x/header''),
       (''Target'', Str ''header1.xml''), (''dir'', Str ''word/_rels'')]]"

definition document_only_context :: "context" where
  "document_only_context = [(''files'', Files document_only_files)]"

text \<open>\<open>nat_of s\<close> reads a decimal numeral back.\<close>

definition digit_of :: "char \<Rightarrow> nat" where
  "digit_of c = of_char c - 48"

definition nat_of :: "string \<Rightarrow> nat" where
  "nat_of s = foldl (\<lambda>a c. 10 * a + digit_of c) 0 s"


section \<open>Lemmas on dictionaries and loops\<close>

lemma map_of_dict_set: "map_of (dict_set d k v) = (map_of d)(k \<mapsto> v)"
  by (induction d k v rule: dict_set.induct) auto

lemma getitem_dict_set:
  "getitem (dict_set d k v) k' = (if k' = k then Inr v else getitem d k')"
  by (simp add: getitem_def map_of_dict_set)

lemma keys_Cons: "keys ((k, v) # d) = k # keys d"
  by (simp add: keys_def)

lemma keys_Nil: "keys [] = []"
  by (simp add: keys_def)

lemma keys_dict_set: "set (keys (dict_set d k v)) = insert k (set (keys d))"
  by (induction d k v rule: dict_set.induct) (auto simp: keys_def)

lemma distinct_keys_dict_set: "distinct (keys d) \<Longrightarrow> distinct (keys (dict_set d k v))"
  by (induction d k v rule: dict_set.induct) (auto simp: keys_Cons keys_Nil keys_dict_set)

lemma dict_set_twice: "dict_set (dict_set d k v) k w = dict_set d k w"
  by (induction d k v rule: dict_set.induct) auto

lemma map_of_fold_dict_set:
  "map_of (fold (\<lambda>(k, v) d. dict_set d k v) kvs d) = map_of d ++ map_of (rev kvs)"
  by (induction kvs arbitrary: d)
    (auto simp: map_of_dict_set map_add_def fun_eq_iff split: option.splits)

lemma map_of_dict_of: "map_of (dict_of kvs) = map_of (rev kvs)"
  by (simp add: dict_of_def map_of_fold_dict_set)

lemma keys_fold_dict_set:
  "set (keys (fold (\<lambda>(k, v) d. dict_set d k v) kvs d)) = set (keys d) \<union> fst ` set kvs"
  by (induction kvs arbitrary: d) (auto simp: keys_dict_set)

lemma keys_dict_of: "set (keys (dict_of kvs)) = fst ` set kvs"
  using keys_fold_dict_set [of kvs "[]"] by (simp add: dict_of_def keys_def)

lemma getitem_Inr_iff: "getitem d k = Inr v \<longleftrightarrow> map_of d k = Some v"
  by (simp add: getitem_def split: option.splits)

lemma getitem_Inl_iff: "getitem d k = Inl e \<longleftrightarrow> e = KeyError \<and> k \<notin> set (keys d)"
  by (auto simp: getitem_def keys_def map_of_eq_None_iff split: option.splits
      dest: map_of_SomeD intro: rev_image_eqI)

text \<open>The last pair with a key decides what a dict built in order holds under it.\<close>

lemma map_of_rev_last:
  assumes "i < length kvs"
    and "\<forall>j. i < j \<and> j < length kvs \<longrightarrow> fst (kvs ! j) \<noteq> fst (kvs ! i)"
  shows "map_of (rev kvs) (fst (kvs ! i)) = Some (snd (kvs ! i))"
  using assms
proof (induction kvs arbitrary: i rule: rev_induct)
  case Nil
  then show ?case by simp
next
  case (snoc x xs)
  show ?case
  proof (cases "i < length xs")
    case True
    have neq: "fst x \<noteq> fst (xs ! i)"
      using snoc.prems(2) [rule_format, of "length xs"] True by (simp add: nth_append)
    have "\<forall>j. i < j \<and> j < length xs \<longrightarrow> fst (xs ! j) \<noteq> fst (xs ! i)"
    proof (intro allI impI)
      fix j assume j: "i < j \<and> j < length xs"
      then show "fst (xs ! j) \<noteq> fst (xs ! i)"
        using snoc.prems(2) [rule_format, of j] True by (simp add: nth_append)
    qed
    with snoc.IH [OF True] have "map_of (rev xs) (fst (xs ! i)) = Some (snd (xs ! i))"
      by simp
    with neq True show ?thesis
      by (cases x) (simp add: nth_append)
  next
    case False
    with snoc.prems(1) have "i = length xs" by simp
    then show ?thesis by (cases x) simp
  qed
qed

lemma for_loop_append:
  "for_loop f s (xs @ ys) =
     (case for_loop f s xs of Inl e \<Rightarrow> Inl e | Inr s' \<Rightarrow> for_loop f s' ys)"
  by (induction xs arbitrary: s) (auto split: sum.splits)

lemma map_raise_Inr_iff: "map_raise f xs = Inr ys \<longleftrightarrow> map f xs = map Inr ys"
proof (induction xs arbitrary: ys)
  case Nil
  show ?case by auto
next
  case (Cons x xs)
  show ?case
  proof (cases "f x")
    case (Inl e)
    then show ?thesis by (auto simp: map_eq_Cons_conv)
  next
    case fx: (Inr y)
    show ?thesis
    proof (cases "map_raise f xs")
      case (Inl e)
      have "map f xs \<noteq> map Inr zs" for zs
        using Cons.IH [of zs] Inl by simp
      with fx Inl show ?thesis by (auto simp: map_eq_Cons_conv)
    next
      case (Inr zs)
      then have "map f xs = map Inr zs" using Cons.IH [of zs] by simp
      with fx Inr show ?thesis
        by (auto simp: map_eq_Cons_conv inj_map_eq_map [OF inj_Inr])
    qed
  qed
qed

lemma map_raise_Inr_length: "map_raise f xs = Inr ys \<Longrightarrow> length ys = length xs"
  by (metis length_map map_raise_Inr_iff)

lemma map_raise_Inr_nth:
  "map_raise f xs = Inr ys \<Longrightarrow> i < length xs \<Longrightarrow> f (xs ! i) = Inr (ys ! i)"
  by (metis length_map map_raise_Inr_iff nth_map)


lemma map_raise_total:
  "(\<forall>x\<in>set xs. \<exists>y. f x = Inr y) \<Longrightarrow> \<exists>ys. map_raise f xs = Inr ys"
  by (induction xs) (auto split: sum.splits)

text \<open>A loop that assigns one pair for each element builds the dict of the pairs.\<close>

lemma for_loop_entries:
  assumes "\<And>s x. body s x =
             (case entry x of Inl e \<Rightarrow> Inl e | Inr (k, v) \<Rightarrow> Inr (dict_set s k v))"
  shows "for_loop body s xs =
           (case map_raise entry xs of
              Inl e \<Rightarrow> Inl e
            | Inr kvs \<Rightarrow> Inr (fold (\<lambda>(k, v) d. dict_set d k v) kvs s))"
  by (induction xs arbitrary: s) (auto simp: assms split: sum.splits)

lemma for_loop_entries_dict_of:
  assumes "\<And>s x. body s x =
             (case entry x of Inl e \<Rightarrow> Inl e | Inr (k, v) \<Rightarrow> Inr (dict_set s k v))"
  shows "for_loop body [] xs =
           (case map_raise entry xs of Inl e \<Rightarrow> Inl e | Inr kvs \<Rightarrow> Inr (dict_of kvs))"
  unfolding dict_of_def by (rule for_loop_entries [of body entry, OF assms])

section \<open>Numbering part absent, numbering part malformed\<close>

lemma read_absent: "name \<notin> set (namelist zipf) \<Longrightarrow> read zipf name = Inl KeyError"
proof -
  assume "name \<notin> set (namelist zipf)"
  then have "name \<notin> fst ` set (rev zipf)" by (simp add: namelist_def)
  then have "map_of (rev zipf) name = None" by (simp add: map_of_eq_None_iff)
  then show ?thesis by (simp add: read_def)
qed

lemma read_present: "name \<in> set (namelist zipf) \<Longrightarrow> \<exists>b. read zipf name = Inr b"
proof -
  assume "name \<in> set (namelist zipf)"
  then have "name \<in> fst ` set (rev zipf)" by (simp add: namelist_def)
  then have "map_of (rev zipf) name \<noteq> None" by (simp add: map_of_eq_None_iff)
  then show ?thesis by (auto simp: read_def)
qed

text \<open>
  C1. A \<^verbatim>\<open>w:num\<close> of the numbering part refers to an abstract definition that is not
  there. \<^verbatim>\<open>collect_numFmts\<close> raises \<^verbatim>\<open>KeyError\<close> on the part, and \<^verbatim>\<open>get_context\<close>
  catches it with the handler meant for an archive without numbering part: it returns
  the context of the same archive without its numbering part, with the single key
  \<^verbatim>\<open>files\<close>. The error of a level without format, an \<^verbatim>\<open>AttributeError\<close>, does reach
  the caller.
\<close>

theorem dangling_reference_swallowed:
  "read dangling_docx ''word/numbering.xml'' = Inr ''<dangling>'' \<and>
   collect_numFmts example_fromstring example_qn ''<dangling>'' = Inl KeyError \<and>
   get_context example_fromstring example_qn spec_get_path_rels dangling_docx
     = Inr basic_context \<and>
   get_context example_fromstring example_qn spec_get_path_rels basic_docx
     = Inr basic_context \<and>
   keys basic_context = [''files''] \<and>
   get_context example_fromstring example_qn spec_get_path_rels noFmt_docx
     = Inl AttributeError"
  by code_simp

text \<open>
  C2. For an archive without the part \<^verbatim>\<open>word/numbering.xml\<close>, the context that
  \<^verbatim>\<open>get_context\<close> returns has the single key \<^verbatim>\<open>files\<close>: reading
  \<^verbatim>\<open>context["numId2numFmts"]\<close> or \<^verbatim>\<open>context["numId2count"]\<close> raises \<^verbatim>\<open>KeyError\<close>, and
  no empty mapping is stored under these keys.
\<close>

theorem numbering_absent:
  assumes "''word/numbering.xml'' \<notin> set (namelist zipf)"
    and "get_context fromstring qn get_path_rels zipf = Inr ctx"
  shows "getitem ctx ''numId2numFmts'' = Inl KeyError \<and>
         getitem ctx ''numId2count'' = Inl KeyError \<and>
         keys ctx = [''files'']"
proof -
  have "try_numFmts fromstring qn zipf = Inl KeyError"
    by (simp add: try_numFmts_def read_absent [OF assms(1)])
  with assms(2) obtain files where "ctx = [(''files'', Files files)]"
    by (auto simp: get_context_def split: sum.splits)
  then show ?thesis by (simp add: getitem_def keys_def)
qed

theorem numbering_absent_witness:
  "''word/numbering.xml'' \<notin> set (namelist basic_docx) \<and>
   get_context example_fromstring example_qn spec_get_path_rels basic_docx
     = Inr basic_context \<and>
   getitem basic_context ''numId2numFmts'' = Inl KeyError \<and>
   getitem basic_context ''numId2count'' = Inl KeyError \<and>
   keys basic_context = [''files'']"
proof -
  have absent: "''word/numbering.xml'' \<notin> set (namelist basic_docx)"
    by code_simp
  have returns: "get_context example_fromstring example_qn spec_get_path_rels basic_docx
      = Inr basic_context"
    by code_simp
  show ?thesis
    using absent returns numbering_absent [OF absent returns] by simp
qed

section \<open>The counter table\<close>

lemma map_of_const_pairs:
  "map_of (map (\<lambda>x. (x, c)) ks) k = (if k \<in> set ks then Some c else None)"
  by (induction ks) auto

lemma getitem_counters:
  "numId \<in> set ks \<Longrightarrow> getitem (dict_of (map (\<lambda>x. (x, c)) ks)) numId = Inr c"
proof -
  assume "numId \<in> set ks"
  then have "map_of (map (\<lambda>x. (x, c)) (rev ks)) numId = Some c"
    by (simp add: map_of_const_pairs)
  then show ?thesis
    by (simp add: getitem_def map_of_dict_of rev_map)
qed

lemma keys_counters: "set (keys (dict_of (map (\<lambda>x. (x, c)) ks))) = set ks"
  by (simp add: keys_dict_of image_image)

text \<open>
  C7. When the context that \<^verbatim>\<open>get_context\<close> returns has the key \<^verbatim>\<open>numId2numFmts\<close>, it
  has the key \<^verbatim>\<open>numId2count\<close>, the two dicts have the same set of keys, and every
  counter reads 0 at every level.
\<close>

theorem counters_zeroed:
  assumes "get_context fromstring qn get_path_rels zipf = Inr ctx"
    and "getitem ctx ''numId2numFmts'' = Inr v"
  shows "\<exists>numId2numFmts numId2count.
           v = NumFmts numId2numFmts \<and>
           getitem ctx ''numId2count'' = Inr (Counts numId2count) \<and>
           set (keys numId2count) = set (keys numId2numFmts) \<and>
           (\<forall>numId\<in>set (keys numId2numFmts).
              \<exists>counter. getitem numId2count numId = Inr counter \<and>
                (\<forall>level. fst (dd_getitem counter level) = 0))"
proof -
  from assms(1) obtain files where
    ctx: "case try_numFmts fromstring qn zipf of
            Inl e \<Rightarrow> ctx = [(''files'', Files files)]
          | Inr m \<Rightarrow> ctx = [(''files'', Files files), (''numId2numFmts'', NumFmts m),
                (''numId2count'', Counts (dict_of (map (\<lambda>x. (x, [])) (keys m))))]"
    by (auto simp: get_context_def Let_def split: sum.splits if_splits)
  show ?thesis
  proof (cases "try_numFmts fromstring qn zipf")
    case (Inl e)
    with ctx assms(2) show ?thesis by (simp add: getitem_def)
  next
    case (Inr m)
    let ?counts = "dict_of (map (\<lambda>x. (x, [] :: defaultdict)) (keys m))"
    from Inr ctx have c: "ctx = [(''files'', Files files), (''numId2numFmts'', NumFmts m),
        (''numId2count'', Counts ?counts)]"
      by simp
    with assms(2) have v: "v = NumFmts m" by (simp add: getitem_def)
    have count: "getitem ctx ''numId2count'' = Inr (Counts ?counts)"
      by (simp add: c getitem_def)
    have zero: "\<forall>numId\<in>set (keys m). \<exists>counter. getitem ?counts numId = Inr counter \<and>
        (\<forall>level. fst (dd_getitem counter level) = 0)"
      by (simp add: getitem_counters dd_getitem_def)
    from v count zero keys_counters [of "[]" "keys m"] show ?thesis by blast
  qed
qed

theorem counters_zeroed_witness:
  "get_context example_fromstring example_qn spec_get_path_rels example_docx
     = Inr example_context \<and>
   getitem example_context ''numId2numFmts'' = Inr (NumFmts example_numFmts) \<and>
   (\<exists>numId2numFmts numId2count.
      NumFmts example_numFmts = NumFmts numId2numFmts \<and>
      getitem example_context ''numId2count'' = Inr (Counts numId2count) \<and>
      set (keys numId2count) = set (keys numId2numFmts) \<and>
      (\<forall>numId\<in>set (keys numId2numFmts).
         \<exists>counter. getitem numId2count numId = Inr counter \<and>
           (\<forall>level. fst (dd_getitem counter level) = 0)))"
proof -
  have returns: "get_context example_fromstring example_qn spec_get_path_rels example_docx
      = Inr example_context"
    by code_simp
  have present: "getitem example_context ''numId2numFmts'' = Inr (NumFmts example_numFmts)"
    by code_simp
  show ?thesis
    using returns present counters_zeroed [OF returns present] by simp
qed

section \<open>Relationship descriptors and the records of the context\<close>

lemma collect_rels_body_entry:
  "collect_rels_body fromstring zipf d rels =
     (case rels_entry fromstring zipf rels of
        Inl e \<Rightarrow> Inl e
      | Inr (k, v) \<Rightarrow> Inr (dict_set d k v))"
  by (simp add: collect_rels_body_def rels_entry_def split: sum.splits)

lemma collect_rels_entries:
  "collect_rels fromstring zipf =
     (case map_raise (rels_entry fromstring zipf) (filter is_rels (namelist zipf)) of
        Inl e \<Rightarrow> Inl e
      | Inr kvs \<Rightarrow> Inr (dict_of kvs))"
  unfolding collect_rels_def
  by (rule for_loop_entries_dict_of) (rule collect_rels_body_entry)

lemma set_dict_set: "set (dict_set d k v) \<subseteq> insert (k, v) (set d)"
  by (induction d k v rule: dict_set.induct) auto

lemma set_fold_dict_set:
  "set (fold (\<lambda>(k, v) d. dict_set d k v) kvs d) \<subseteq> set d \<union> set kvs"
proof (induction kvs arbitrary: d)
  case Nil
  show ?case by simp
next
  case (Cons kv kvs)
  obtain k v where kv: "kv = (k, v)" by (cases kv)
  show ?case
    using Cons.IH [of "dict_set d k v"] set_dict_set [of d k v] by (auto simp: kv)
qed

lemma set_dict_of: "set (dict_of kvs) \<subseteq> set kvs"
  using set_fold_dict_set [of kvs "[]"] by (simp add: dict_of_def)

lemma map_raise_set:
  "map_raise f xs = Inr ys \<Longrightarrow> y \<in> set ys \<Longrightarrow> \<exists>x\<in>set xs. f x = Inr y"
  by (induction xs arbitrary: ys) (auto split: sum.splits)

text \<open>Every pair of the dict of \<^verbatim>\<open>collect_rels\<close> is a descriptor part and its entries.\<close>

lemma collect_rels_pair:
  assumes "collect_rels fromstring zipf = Inr path2rels" and "(k, v) \<in> set path2rels"
  shows "k \<in> set (namelist zipf) \<and> is_rels k \<and>
         (\<exists>xml root. read zipf k = Inr xml \<and> fromstring xml = Inr root \<and>
            v = map attrib (children root))"
proof -
  from assms(1) obtain kvs where
    kvs: "map_raise (rels_entry fromstring zipf) (filter is_rels (namelist zipf)) = Inr kvs"
    and p: "path2rels = dict_of kvs"
    by (auto simp: collect_rels_entries split: sum.splits)
  from assms(2) p set_dict_of [of kvs] have "(k, v) \<in> set kvs" by auto
  with map_raise_set [OF kvs] obtain rels where
    rels: "rels \<in> set (filter is_rels (namelist zipf))"
    and entry: "rels_entry fromstring zipf rels = Inr (k, v)"
    by blast
  from entry show ?thesis
    using rels by (auto simp: rels_entry_def split: sum.splits)
qed

lemma collect_rels_total:
  assumes "\<And>rels xml. rels \<in> set (namelist zipf) \<Longrightarrow> is_rels rels \<Longrightarrow>
             read zipf rels = Inr xml \<Longrightarrow> \<not> isl (fromstring xml)"
  shows "\<exists>path2rels. collect_rels fromstring zipf = Inr path2rels"
proof -
  have "\<forall>rels\<in>set (filter is_rels (namelist zipf)).
          \<exists>y. rels_entry fromstring zipf rels = Inr y"
  proof
    fix rels assume r: "rels \<in> set (filter is_rels (namelist zipf))"
    then obtain xml where xml: "read zipf rels = Inr xml"
      using read_present [of rels zipf] by auto
    with assms [of rels xml] r obtain root where "fromstring xml = Inr root"
      by (cases "fromstring xml") auto
    with xml show "\<exists>y. rels_entry fromstring zipf rels = Inr y"
      by (simp add: rels_entry_def)
  qed
  from map_raise_total [OF this] show ?thesis
    by (auto simp: collect_rels_entries)
qed

text \<open>The loop of source lines 250--253 adds the key \<^verbatim>\<open>rels\<close> to a record or leaves it.\<close>

lemma link_loop:
  "for_loop (link_body g p) acc xs = Inr r \<Longrightarrow>
     \<exists>fs. r = acc @ fs \<and>
       list_all2 (\<lambda>f' f. f' = f \<or> (\<exists>rels. f' = dict_set f ''rels'' (Rels rels))) fs xs"
proof (induction xs arbitrary: acc r)
  case Nil
  then show ?case by simp
next
  case (Cons x xs)
  have step: "link_body g p acc x =
      (case link_rels g p x of Inl e \<Rightarrow> Inl e | Inr x' \<Rightarrow> Inr (acc @ [x']))"
    by (simp add: link_body_def)
  from Cons.prems step obtain x' where x': "link_rels g p x = Inr x'"
    and rest: "for_loop (link_body g p) (acc @ [x']) xs = Inr r"
    by (auto split: sum.splits)
  from x' have "x' = x \<or> (\<exists>rels. x' = dict_set x ''rels'' (Rels rels))"
    by (auto simp: link_rels_def split: sum.splits if_splits)
  moreover from Cons.IH [OF rest] obtain fs where "r = (acc @ [x']) @ fs"
    and "list_all2 (\<lambda>f' f. f' = f \<or> (\<exists>rels. f' = dict_set f ''rels'' (Rels rels))) fs xs"
    by blast
  ultimately show ?case
    by (intro exI [of _ "x' # fs"]) simp
qed

lemma link_loop_total:
  assumes "\<And>x e. x \<in> set xs \<Longrightarrow> g x = Inl e \<Longrightarrow> e = KeyError"
  shows "\<exists>r. for_loop (link_body g p) acc xs = Inr r"
  using assms
proof (induction xs arbitrary: acc)
  case Nil
  show ?case by simp
next
  case (Cons x xs)
  have "\<exists>x'. link_rels g p x = Inr x'"
    using Cons.prems [of x] 
    by (auto simp: link_rels_def getitem_def split: sum.splits option.splits)
  then obtain x' where x': "link_rels g p x = Inr x'" ..
  from Cons.IH [of "acc @ [x']"] Cons.prems obtain r where
    "for_loop (link_body g p) (acc @ [x']) xs = Inr r"
    by auto
  moreover have "link_body g p acc x = Inr (acc @ [x'])"
    using x' by (simp add: link_body_def)
  ultimately show ?case by simp
qed

lemma files_of_pairs:
  "files_of p = map (\<lambda>(k, x). expand_file k x) (concat (map (\<lambda>(k, v). map (Pair k) v) p))"
  by (induction p) (auto simp: files_of_def)

lemma getitem_expand_file:
  "getitem (expand_file k x) a =
     (if a = ''dir'' then Inr (Str (dirname k)) else map_sum id Str (getitem x a))"
proof -
  have "map_of (map (\<lambda>(a, b). (a, Str b)) x) a = map_option Str (map_of x a)"
    by (simp add: map_of_map)
  then have "getitem (map (\<lambda>(a, b). (a, Str b)) x) a = map_sum id Str (getitem x a)"
    by (simp add: getitem_def split: option.splits)
  then show ?thesis
    by (simp add: expand_file_def getitem_dict_set)
qed

lemma get_context_files:
  assumes "get_context fromstring qn g zipf = Inr ctx"
  shows "\<exists>path2rels files.
           collect_rels fromstring zipf = Inr path2rels \<and>
           for_loop (link_body g path2rels) [] (files_of path2rels) = Inr files \<and>
           getitem ctx ''files'' = Inr (Files files)"
  using assms
  by (auto simp: get_context_def Let_def getitem_def split: sum.splits if_splits)

text \<open>
  The records of the context, against the dict of \<^verbatim>\<open>collect_rels\<close>: one record for each
  pair of a descriptor and one of its entries, in order, with the attributes of the
  entry and the directory of the descriptor under \<^verbatim>\<open>dir\<close>.
\<close>

lemma get_context_records:
  assumes "get_context fromstring qn get_path_rels zipf = Inr ctx"
  shows "\<exists>path2rels files.
           collect_rels fromstring zipf = Inr path2rels \<and>
           getitem ctx ''files'' = Inr (Files files) \<and>
           list_all2
             (\<lambda>file (k, x).
                getitem file ''dir'' = Inr (Str (dirname k)) \<and>
                (\<forall>a. a \<noteq> ''dir'' \<and> a \<noteq> ''rels'' \<longrightarrow>
                   getitem file a = map_sum id Str (getitem x a)))
             files (concat (map (\<lambda>(k, v). map (Pair k) v) path2rels))"
proof -
  from get_context_files [OF assms] obtain path2rels files where
    rels: "collect_rels fromstring zipf = Inr path2rels"
    and loop: "for_loop (link_body get_path_rels path2rels) [] (files_of path2rels) = Inr files"
    and files: "getitem ctx ''files'' = Inr (Files files)"
    by blast
  let ?pairs = "concat (map (\<lambda>(k, v). map (Pair k) v) path2rels)"
  let ?linked = "\<lambda>f' f. f' = f \<or> (\<exists>rels. f' = dict_set f ''rels'' (Rels rels))"
  let ?tagged = "\<lambda>file (k, x).
      getitem file ''dir'' = Inr (Str (dirname k)) \<and>
      (\<forall>a. a \<noteq> ''dir'' \<and> a \<noteq> ''rels'' \<longrightarrow> getitem file a = map_sum id Str (getitem x a))"
  from link_loop [OF loop] have "list_all2 ?linked files (files_of path2rels)"
    by auto
  then have "list_all2 ?linked files (map (\<lambda>(k, x). expand_file k x) ?pairs)"
    by (simp only: files_of_pairs)
  then have "list_all2 (\<lambda>f' kx. ?linked f' (case kx of (k, x) \<Rightarrow> expand_file k x)) files ?pairs"
    by (simp only: list_all2_map2)
  then have "list_all2 ?tagged files ?pairs"
  proof (rule list_all2_mono)
    fix f' kx
    assume l: "?linked f' (case kx of (k, x) \<Rightarrow> expand_file k x)"
    obtain k x where kx: "kx = (k, x)" by (cases kx)
    from l kx show "?tagged f' kx"
      by (auto simp: getitem_dict_set getitem_expand_file)
  qed
  with rels files show ?thesis by blast
qed

text \<open>
  The dict of \<^verbatim>\<open>collect_rels\<close>, against the archive: its keys are the names of the
  archive that end in \<^verbatim>\<open>.rels\<close>, each once, in archive order when no name occurs
  twice, and each is mapped to the attribute dicts of the children of its parsed part.
\<close>

lemma dict_set_new: "k \<notin> set (keys d) \<Longrightarrow> dict_set d k v = d @ [(k, v)]"
  by (induction d) (auto simp: keys_def)

lemma fold_dict_set_distinct:
  "distinct (keys d @ map fst kvs) \<Longrightarrow> fold (\<lambda>(k, v) d. dict_set d k v) kvs d = d @ kvs"
proof (induction kvs arbitrary: d)
  case Nil
  show ?case by simp
next
  case (Cons kv kvs)
  obtain k v where kv: "kv = (k, v)" by (cases kv)
  from Cons.prems kv have new: "k \<notin> set (keys d)" by auto
  then have step: "dict_set d k v = d @ [(k, v)]" by (rule dict_set_new)
  from Cons.prems kv have "distinct (keys (d @ [(k, v)]) @ map fst kvs)"
    by (auto simp: keys_def)
  from Cons.IH [OF this] step kv show ?case by simp
qed

lemma dict_of_distinct: "distinct (map fst kvs) \<Longrightarrow> dict_of kvs = kvs"
  using fold_dict_set_distinct [of "[]" kvs] by (simp add: dict_of_def keys_def)

lemma distinct_keys_fold_dict_set:
  "distinct (keys d) \<Longrightarrow> distinct (keys (fold (\<lambda>(k, v) d. dict_set d k v) kvs d))"
proof (induction kvs arbitrary: d)
  case Nil
  then show ?case by simp
next
  case (Cons kv kvs)
  obtain k v where kv: "kv = (k, v)" by (cases kv)
  from Cons.IH [OF distinct_keys_dict_set [OF Cons.prems, of k v]] kv show ?case by simp
qed

lemma distinct_keys_dict_of: "distinct (keys (dict_of kvs))"
  using distinct_keys_fold_dict_set [of "[]" kvs] by (simp add: dict_of_def keys_def)

lemma rels_entry_key: "rels_entry fromstring zipf rels = Inr (k, v) \<Longrightarrow> k = rels"
  by (auto simp: rels_entry_def split: sum.splits)

lemma map_raise_keys:
  assumes "\<And>x k v. f x = Inr (k, v) \<Longrightarrow> k = x"
  shows "map_raise f xs = Inr kvs \<Longrightarrow> map fst kvs = xs"
proof (induction xs arbitrary: kvs)
  case Nil
  then show ?case by simp
next
  case (Cons x xs)
  from Cons.prems obtain y ys where y: "f x = Inr y" and ys: "map_raise f xs = Inr ys"
    and kvs: "kvs = y # ys"
    by (auto split: sum.splits)
  from y assms [of x "fst y" "snd y"] have "fst y = x" by simp
  with Cons.IH [OF ys] kvs show ?case by simp
qed

lemma collect_rels_exact:
  assumes "collect_rels fromstring zipf = Inr path2rels"
  shows "set (keys path2rels) = set (filter is_rels (namelist zipf)) \<and>
         distinct (keys path2rels) \<and>
         (distinct (filter is_rels (namelist zipf)) \<longrightarrow>
            keys path2rels = filter is_rels (namelist zipf)) \<and>
         (\<forall>k\<in>set (filter is_rels (namelist zipf)).
            \<exists>xml root. read zipf k = Inr xml \<and> fromstring xml = Inr root \<and>
              getitem path2rels k = Inr (map attrib (children root)))"
proof -
  let ?names = "filter is_rels (namelist zipf)"
  from assms obtain kvs where
    kvs: "map_raise (rels_entry fromstring zipf) ?names = Inr kvs"
    and p: "path2rels = dict_of kvs"
    by (auto simp: collect_rels_entries split: sum.splits)
  have fst: "map fst kvs = ?names"
    by (rule map_raise_keys [OF rels_entry_key kvs])
  have "set (keys path2rels) = fst ` set kvs"
    by (simp add: p keys_dict_of)
  also have "\<dots> = set (map fst kvs)" by simp
  finally have keys: "set (keys path2rels) = set ?names"
    by (simp only: fst)
  have dist: "distinct (keys path2rels)"
    by (simp add: p distinct_keys_dict_of)
  have order: "keys path2rels = ?names" if "distinct ?names"
  proof -
    from that fst have "distinct (map fst kvs)" by simp
    then have "dict_of kvs = kvs" by (rule dict_of_distinct)
    with p fst show ?thesis by (simp add: keys_def)
  qed
  have entries: "\<exists>xml root. read zipf k = Inr xml \<and> fromstring xml = Inr root \<and>
      getitem path2rels k = Inr (map attrib (children root))" if k: "k \<in> set ?names" for k
  proof -
    from k keys have "k \<in> set (keys path2rels)" by simp
    then obtain v where v: "getitem path2rels k = Inr v"
      using getitem_Inl_iff [of path2rels k] by (cases "getitem path2rels k") auto
    then have "(k, v) \<in> set path2rels"
      by (auto simp: getitem_def split: option.splits dest: map_of_SomeD)
    from collect_rels_pair [OF assms this] v show ?thesis by auto
  qed
  from keys dist order entries show ?thesis by blast
qed

text \<open>
  C8, as the code has it. The dict of \<^verbatim>\<open>collect_rels\<close> has exactly the descriptor parts
  of the archive as keys, each mapped to the attributes of its relationship entries. For
  every descriptor part \<open>k\<close> and every relationship entry \<open>x\<close> of it, in the order of
  the dict, \<^verbatim>\<open>get_context\<close> emits one record: it carries the attributes of the entry
  and, under the key \<^verbatim>\<open>dir\<close>, \<^verbatim>\<open>os.path.dirname(k)\<close>, the directory of the descriptor
  part itself (\<^verbatim>\<open>word/_rels\<close> for \<^verbatim>\<open>word/_rels/document.xml.rels\<close>). The \<^verbatim>\<open>_rels\<close>
  folder is not stripped here and no target is resolved here.
\<close>

theorem records_tagged_with_descriptor_dir:
  assumes "get_context fromstring qn get_path_rels zipf = Inr ctx"
  shows "\<exists>path2rels files.
           collect_rels fromstring zipf = Inr path2rels \<and>
           set (keys path2rels) = set (filter is_rels (namelist zipf)) \<and>
           distinct (keys path2rels) \<and>
           (distinct (filter is_rels (namelist zipf)) \<longrightarrow>
              keys path2rels = filter is_rels (namelist zipf)) \<and>
           (\<forall>k\<in>set (filter is_rels (namelist zipf)).
              \<exists>xml root. read zipf k = Inr xml \<and> fromstring xml = Inr root \<and>
                getitem path2rels k = Inr (map attrib (children root))) \<and>
           getitem ctx ''files'' = Inr (Files files) \<and>
           list_all2
             (\<lambda>file (k, x).
                getitem file ''dir'' = Inr (Str (dirname k)) \<and>
                (\<forall>a. a \<noteq> ''dir'' \<and> a \<noteq> ''rels'' \<longrightarrow>
                   getitem file a = map_sum id Str (getitem x a)))
             files (concat (map (\<lambda>(k, v). map (Pair k) v) path2rels)) \<and>
           (\<forall>k\<in>set (namelist zipf). is_rels k \<longrightarrow>
              (\<exists>xml root. read zipf k = Inr xml \<and> fromstring xml = Inr root \<and>
                 (\<forall>x\<in>set (map attrib (children root)).
                    \<exists>file\<in>set files.
                      getitem file ''dir'' = Inr (Str (dirname k)) \<and>
                      (\<forall>a. a \<noteq> ''dir'' \<and> a \<noteq> ''rels'' \<longrightarrow>
                         getitem file a = map_sum id Str (getitem x a)))))"
proof -
  let ?tagged = "\<lambda>file (k, x).
      getitem file ''dir'' = Inr (Str (dirname k)) \<and>
      (\<forall>a. a \<noteq> ''dir'' \<and> a \<noteq> ''rels'' \<longrightarrow> getitem file a = map_sum id Str (getitem x a))"
  from get_context_records [OF assms] obtain path2rels files where
    rels: "collect_rels fromstring zipf = Inr path2rels"
    and files: "getitem ctx ''files'' = Inr (Files files)"
    and records: "list_all2 ?tagged files (concat (map (\<lambda>(k, v). map (Pair k) v) path2rels))"
    by blast
  note exact = collect_rels_exact [OF rels]
  have each: "\<exists>xml root. read zipf k = Inr xml \<and> fromstring xml = Inr root \<and>
      (\<forall>x\<in>set (map attrib (children root)). \<exists>file\<in>set files. ?tagged file (k, x))"
    if "k \<in> set (namelist zipf)" and "is_rels k" for k
  proof -
    from that have "k \<in> set (filter is_rels (namelist zipf))" by simp
    with exact obtain xml root where xml: "read zipf k = Inr xml"
      and root: "fromstring xml = Inr root"
      and entry: "getitem path2rels k = Inr (map attrib (children root))"
      by blast
    from entry have mem: "(k, map attrib (children root)) \<in> set path2rels"
      by (auto simp: getitem_def split: option.splits dest: map_of_SomeD)
    have "\<exists>file\<in>set files. ?tagged file (k, x)" if x: "x \<in> set (map attrib (children root))" for x
    proof -
      from mem x have "(k, x) \<in> set (concat (map (\<lambda>(k, v). map (Pair k) v) path2rels))"
        by force
      then obtain i where i: "i < length (concat (map (\<lambda>(k, v). map (Pair k) v) path2rels))"
        and at: "concat (map (\<lambda>(k, v). map (Pair k) v) path2rels) ! i = (k, x)"
        unfolding in_set_conv_nth by blast
      from list_all2_nthD2 [OF records i] at have "?tagged (files ! i) (k, x)"
        by simp
      moreover from records i have "files ! i \<in> set files"
        by (auto dest: list_all2_lengthD)
      ultimately show ?thesis by blast
    qed
    with xml root show ?thesis by blast
  qed
  from rels exact files records each show ?thesis
    by (intro exI [of _ path2rels] exI [of _ files]) auto
qed

theorem records_tagged_with_descriptor_dir_witness:
  "get_context example_fromstring example_qn spec_get_path_rels basic_docx
     = Inr basic_context \<and>
   (\<exists>path2rels files.
      collect_rels example_fromstring basic_docx = Inr path2rels \<and>
      set (keys path2rels) = set (filter is_rels (namelist basic_docx)) \<and>
      distinct (keys path2rels) \<and>
      (distinct (filter is_rels (namelist basic_docx)) \<longrightarrow>
         keys path2rels = filter is_rels (namelist basic_docx)) \<and>
      (\<forall>k\<in>set (filter is_rels (namelist basic_docx)).
         \<exists>xml root. read basic_docx k = Inr xml \<and> example_fromstring xml = Inr root \<and>
           getitem path2rels k = Inr (map attrib (children root))) \<and>
      getitem basic_context ''files'' = Inr (Files files) \<and>
      list_all2
        (\<lambda>file (k, x).
           getitem file ''dir'' = Inr (Str (dirname k)) \<and>
           (\<forall>a. a \<noteq> ''dir'' \<and> a \<noteq> ''rels'' \<longrightarrow>
              getitem file a = map_sum id Str (getitem x a)))
        files (concat (map (\<lambda>(k, v). map (Pair k) v) path2rels)) \<and>
      (\<forall>k\<in>set (namelist basic_docx). is_rels k \<longrightarrow>
         (\<exists>xml root. read basic_docx k = Inr xml \<and> example_fromstring xml = Inr root \<and>
            (\<forall>x\<in>set (map attrib (children root)).
               \<exists>file\<in>set files.
                 getitem file ''dir'' = Inr (Str (dirname k)) \<and>
                 (\<forall>a. a \<noteq> ''dir'' \<and> a \<noteq> ''rels'' \<longrightarrow>
                    getitem file a = map_sum id Str (getitem x a))))))"
proof -
  have returns: "get_context example_fromstring example_qn spec_get_path_rels basic_docx
      = Inr basic_context"
    by code_simp
  from returns records_tagged_with_descriptor_dir [OF returns] show ?thesis
    by (rule conjI)
qed

text \<open>
  C8, as the claim has it, fails: the descriptor \<^verbatim>\<open>word/_rels/document.xml.rels\<close>
  describes the part \<^verbatim>\<open>word/document.xml\<close>, whose directory is \<^verbatim>\<open>word\<close>, and the
  record of its first entry is tagged \<^verbatim>\<open>word/_rels\<close>.
\<close>

theorem record_dir_counterexample:
  "get_context example_fromstring example_qn spec_get_path_rels document_only_docx
     = Inr document_only_context \<and>
   getitem document_only_context ''files'' = Inr (Files document_only_files) \<and>
   getitem (document_only_files ! 0) ''dir'' = Inr (Str ''word/_rels'') \<and>
   referencing_dir ''word/_rels/document.xml.rels'' = ''word'' \<and>
   getitem (document_only_files ! 0) ''dir''
     \<noteq> Inr (Str (referencing_dir ''word/_rels/document.xml.rels''))"
  by code_simp

section \<open>An archive without top-level descriptor\<close>

text \<open>
  C3, as the claim has it, fails: for an archive with a document and no descriptor part,
  \<^verbatim>\<open>collect_rels\<close> returns the empty dict and \<^verbatim>\<open>get_context\<close> returns a context with an
  empty list of records. No exception is raised.
\<close>

theorem missing_descriptor_counterexample:
  "''_rels/.rels'' \<notin> set (namelist no_rels_docx) \<and>
   collect_rels example_fromstring no_rels_docx = Inr [] \<and>
   get_context example_fromstring example_qn spec_get_path_rels no_rels_docx
     = Inr [(''files'', Files [])]"
  by code_simp

lemma collect_rels_keys:
  assumes "collect_rels fromstring zipf = Inr path2rels"
  shows "set (keys path2rels) \<subseteq> set (namelist zipf)"
proof
  fix k assume "k \<in> set (keys path2rels)"
  then obtain v where "(k, v) \<in> set path2rels" by (auto simp: keys_def)
  with collect_rels_pair [OF assms] show "k \<in> set (namelist zipf)" by blast
qed

text \<open>
  C3, as the code has it. For every archive without top-level descriptor part, context
  assembly raises no error on that account. When the descriptor parts that are in the
  archive parse, \<^verbatim>\<open>collect_rels\<close> returns the dict that has exactly these parts as keys,
  each mapped to the attributes of its entries, and so without the key \<^verbatim>\<open>_rels/.rels\<close>;
  when moreover \<^verbatim>\<open>get_path_rels\<close> raises nothing but \<^verbatim>\<open>KeyError\<close> on the records and
  numbering resolution raises nothing but \<^verbatim>\<open>KeyError\<close>, \<^verbatim>\<open>get_context\<close> returns a
  context, with one record for each relationship entry of these parts, in order. For an
  archive with no descriptor part the dict and the list of records are empty.
\<close>

theorem missing_descriptor_no_error:
  assumes "''_rels/.rels'' \<notin> set (namelist zipf)"
    and "\<And>rels xml. rels \<in> set (namelist zipf) \<Longrightarrow> is_rels rels \<Longrightarrow>
           read zipf rels = Inr xml \<Longrightarrow> \<not> isl (fromstring xml)"
    and "\<And>path2rels x e. collect_rels fromstring zipf = Inr path2rels \<Longrightarrow>
           x \<in> set (files_of path2rels) \<Longrightarrow> get_path_rels x = Inl e \<Longrightarrow> e = KeyError"
    and "\<And>xml e. read zipf ''word/numbering.xml'' = Inr xml \<Longrightarrow>
           collect_numFmts fromstring qn xml = Inl e \<Longrightarrow> e = KeyError"
  shows "\<exists>path2rels ctx files.
           collect_rels fromstring zipf = Inr path2rels \<and>
           set (keys path2rels) = set (filter is_rels (namelist zipf)) \<and>
           distinct (keys path2rels) \<and>
           (distinct (filter is_rels (namelist zipf)) \<longrightarrow>
              keys path2rels = filter is_rels (namelist zipf)) \<and>
           (\<forall>k\<in>set (filter is_rels (namelist zipf)).
              \<exists>xml root. read zipf k = Inr xml \<and> fromstring xml = Inr root \<and>
                getitem path2rels k = Inr (map attrib (children root))) \<and>
           ''_rels/.rels'' \<notin> set (keys path2rels) \<and>
           get_context fromstring qn get_path_rels zipf = Inr ctx \<and>
           getitem ctx ''files'' = Inr (Files files) \<and>
           list_all2
             (\<lambda>file (k, x).
                getitem file ''dir'' = Inr (Str (dirname k)) \<and>
                (\<forall>a. a \<noteq> ''dir'' \<and> a \<noteq> ''rels'' \<longrightarrow>
                   getitem file a = map_sum id Str (getitem x a)))
             files (concat (map (\<lambda>(k, v). map (Pair k) v) path2rels)) \<and>
           (filter is_rels (namelist zipf) = [] \<longrightarrow> path2rels = [] \<and> files = [])"
proof -
  let ?tagged = "\<lambda>file (k, x).
      getitem file ''dir'' = Inr (Str (dirname k)) \<and>
      (\<forall>a. a \<noteq> ''dir'' \<and> a \<noteq> ''rels'' \<longrightarrow> getitem file a = map_sum id Str (getitem x a))"
  from collect_rels_total [of zipf fromstring] assms(2) obtain path2rels where
    rels: "collect_rels fromstring zipf = Inr path2rels"
    by blast
  note exact = collect_rels_exact [OF rels]
  from exact assms(1) have nokey: "''_rels/.rels'' \<notin> set (keys path2rels)"
    by simp
  from link_loop_total [of "files_of path2rels" get_path_rels path2rels "[]"] assms(3) [OF rels]
  obtain linked where
    loop: "for_loop (link_body get_path_rels path2rels) [] (files_of path2rels) = Inr linked"
    by blast
  have num: "try_numFmts fromstring qn zipf = Inl e \<Longrightarrow> e = KeyError" for e
    using assms(4) by (auto simp: try_numFmts_def read_def split: sum.splits option.splits)
  have "\<exists>ctx. get_context fromstring qn get_path_rels zipf = Inr ctx"
  proof (cases "try_numFmts fromstring qn zipf")
    case (Inl e)
    with num [of e] rels loop show ?thesis
      by (simp add: get_context_def)
  next
    case (Inr m)
    with rels loop show ?thesis
      by (simp add: get_context_def)
  qed
  then obtain ctx where ctx: "get_context fromstring qn get_path_rels zipf = Inr ctx" ..
  from get_context_records [OF ctx] rels obtain files where
    files: "getitem ctx ''files'' = Inr (Files files)"
    and records: "list_all2 ?tagged files (concat (map (\<lambda>(k, v). map (Pair k) v) path2rels))"
    by auto
  have none: "path2rels = [] \<and> files = []" if "filter is_rels (namelist zipf) = []"
  proof -
    from that exact have "set (keys path2rels) = {}" by simp
    then have "path2rels = []" by (simp add: keys_def)
    with records show ?thesis by simp
  qed
  from rels exact nokey ctx files records none show ?thesis
    by (intro exI [of _ path2rels] exI [of _ ctx] exI [of _ files]) auto
qed

theorem missing_descriptor_no_error_witness:
  "''_rels/.rels'' \<notin> set (namelist document_only_docx) \<and>
   (\<exists>path2rels ctx files.
      collect_rels example_fromstring document_only_docx = Inr path2rels \<and>
      set (keys path2rels) = set (filter is_rels (namelist document_only_docx)) \<and>
      distinct (keys path2rels) \<and>
      (distinct (filter is_rels (namelist document_only_docx)) \<longrightarrow>
         keys path2rels = filter is_rels (namelist document_only_docx)) \<and>
      (\<forall>k\<in>set (filter is_rels (namelist document_only_docx)).
         \<exists>xml root. read document_only_docx k = Inr xml \<and>
           example_fromstring xml = Inr root \<and>
           getitem path2rels k = Inr (map attrib (children root))) \<and>
      ''_rels/.rels'' \<notin> set (keys path2rels) \<and>
      get_context example_fromstring example_qn spec_get_path_rels document_only_docx
        = Inr ctx \<and>
      getitem ctx ''files'' = Inr (Files files) \<and>
      list_all2
        (\<lambda>file (k, x).
           getitem file ''dir'' = Inr (Str (dirname k)) \<and>
           (\<forall>a. a \<noteq> ''dir'' \<and> a \<noteq> ''rels'' \<longrightarrow>
              getitem file a = map_sum id Str (getitem x a)))
        files (concat (map (\<lambda>(k, v). map (Pair k) v) path2rels)) \<and>
      (filter is_rels (namelist document_only_docx) = [] \<longrightarrow> path2rels = [] \<and> files = []))"
proof -
  have absent: "''_rels/.rels'' \<notin> set (namelist document_only_docx)"
    by code_simp
  have names: "namelist document_only_docx = [''word/_rels/document.xml.rels'']"
    by code_simp
  have bytes: "read document_only_docx ''word/_rels/document.xml.rels''
      = Inr ''<document_rels>''"
    by code_simp
  have parses: "\<not> isl (example_fromstring ''<document_rels>'')"
    by code_simp
  have parse: "\<not> isl (example_fromstring xml)"
    if "rels \<in> set (namelist document_only_docx)" and "is_rels rels"
      and "read document_only_docx rels = Inr xml" for rels xml
    using that names bytes parses by simp
  have rels: "collect_rels example_fromstring document_only_docx = Inr document_only_rels"
    by code_simp
  have files: "files_of document_only_rels = document_only_files"
    by code_simp
  have paths: "list_all (\<lambda>x. \<not> isl (spec_get_path_rels x)) document_only_files"
    by code_simp
  have helper: "e = KeyError"
    if "collect_rels example_fromstring document_only_docx = Inr path2rels"
      and "x \<in> set (files_of path2rels)" and "spec_get_path_rels x = Inl e" for path2rels x e
  proof -
    from that(1) rels have "path2rels = document_only_rels" by simp
    with that(2) files have "x \<in> set document_only_files" by simp
    with paths have "\<not> isl (spec_get_path_rels x)" by (simp add: list_all_iff)
    with that(3) show ?thesis by simp
  qed
  have no_part: "read document_only_docx ''word/numbering.xml'' = Inl KeyError"
    by code_simp
  have numbering: "e = KeyError"
    if "read document_only_docx ''word/numbering.xml'' = Inr xml"
      and "collect_numFmts example_fromstring example_qn xml = Inl e" for xml e
    using that no_part by simp
  from absent missing_descriptor_no_error [OF absent parse helper numbering]
  show ?thesis by (rule conjI)
qed

section \<open>Numbering resolution\<close>

lemma map_raise_mem:
  "map_raise f xs = Inr ys \<Longrightarrow> x \<in> set xs \<Longrightarrow> \<exists>y. f x = Inr y \<and> y \<in> set ys"
  by (induction xs arbitrary: ys) (auto split: sum.splits)

text \<open>The inner loop appends the formats of the levels, in document order.\<close>

lemma lvl_loop:
  "getitem d k = Inr fmts \<Longrightarrow>
   for_loop (lvl_body qn k) d lvls =
     (case map_raise (lvl_numFmt qn) lvls of
        Inl e \<Rightarrow> Inl e
      | Inr vs \<Rightarrow> Inr (dict_set d k (fmts @ vs)))"
proof (induction lvls arbitrary: d fmts)
  case Nil
  then have "dict_set d k fmts = d"
    by (induction d) (auto simp: getitem_def split: option.splits if_splits)
  then show ?case by simp
next
  case (Cons lvl lvls)
  have step: "lvl_body qn k d lvl =
      (case lvl_numFmt qn lvl of
         Inl e \<Rightarrow> Inl e
       | Inr v \<Rightarrow> Inr (dict_set d k (fmts @ [v])))"
    using Cons.prems by (simp add: lvl_body_def)
  show ?case
  proof (cases "lvl_numFmt qn lvl")
    case (Inl e)
    with step show ?thesis by simp
  next
    case (Inr v)
    have "getitem (dict_set d k (fmts @ [v])) k = Inr (fmts @ [v])"
      by (simp add: getitem_dict_set)
    from Cons.IH [OF this] step Inr show ?thesis
      by (simp add: dict_set_twice split: sum.splits)
  qed
qed

lemma abstractNum_body_entry:
  "abstractNum_body qn d a =
     (case abstractNum_entry qn a of
        Inl e \<Rightarrow> Inl e
      | Inr (k, v) \<Rightarrow> Inr (dict_set d k v))"
proof (cases "getitem (attrib a) (qn ''w:abstractNumId'')")
  case (Inl e)
  then show ?thesis by (simp add: abstractNum_body_def abstractNum_entry_def)
next
  case (Inr k)
  have "getitem (dict_set d k []) k = Inr []"
    by (simp add: getitem_dict_set)
  from lvl_loop [OF this, of qn "findall a (qn ''w:lvl'')"] Inr show ?thesis
    by (simp add: abstractNum_body_def abstractNum_entry_def dict_set_twice split: sum.splits)
qed

lemma abstractNumId2numFmts_entries:
  "abstractNumId2numFmts qn root =
     (case map_raise (abstractNum_entry qn) (findall root (qn ''w:abstractNum'')) of
        Inl e \<Rightarrow> Inl e
      | Inr kvs \<Rightarrow> Inr (dict_of kvs))"
  unfolding abstractNumId2numFmts_def
  by (rule for_loop_entries_dict_of) (rule abstractNum_body_entry)

lemma num_body_entry:
  "num_body qn table d num =
     (case num_entry qn table num of
        Inl e \<Rightarrow> Inl e
      | Inr (k, v) \<Rightarrow> Inr (dict_set d k v))"
  by (simp add: num_body_def num_entry_def split: sum.splits)

lemma numId2numFmts_of_entries:
  "numId2numFmts_of qn table root =
     (case map_raise (num_entry qn table) (findall root (qn ''w:num'')) of
        Inl e \<Rightarrow> Inl e
      | Inr kvs \<Rightarrow> Inr (dict_of kvs))"
  unfolding numId2numFmts_of_def
  by (rule for_loop_entries_dict_of) (rule num_body_entry)

lemma abstractNum_entry_Inr:
  "abstractNum_entry qn a = Inr (k, v) \<longleftrightarrow>
     getitem (attrib a) (qn ''w:abstractNumId'') = Inr k \<and>
     map (lvl_numFmt qn) (findall a (qn ''w:lvl'')) = map Inr v"
proof (cases "map_raise (lvl_numFmt qn) (findall a (qn ''w:lvl''))")
  case (Inl e)
  with map_raise_Inr_iff [of "lvl_numFmt qn" "findall a (qn ''w:lvl'')" v] show ?thesis
    by (simp add: abstractNum_entry_def split: sum.splits)
next
  case (Inr fmts)
  with map_raise_Inr_iff [of "lvl_numFmt qn" "findall a (qn ''w:lvl'')" v]
    map_raise_Inr_iff [of "lvl_numFmt qn" "findall a (qn ''w:lvl'')" fmts] show ?thesis
    by (auto simp: abstractNum_entry_def split: sum.splits)
qed

lemma num_entry_Inr:
  "num_entry qn table num = Inr (k, v) \<longleftrightarrow>
     getitem (attrib num) (qn ''w:numId'') = Inr k \<and>
     (\<exists>r. num_abstractNumId qn num = Inr r \<and> getitem table r = Inr v)"
  by (auto simp: num_entry_def split: sum.splits)

text \<open>
  What a dict built from the pairs of a list holds for the element \<open>i\<close>, when no later
  element has the same key.
\<close>

lemma entries_last:
  assumes "map_raise entry xs = Inr kvs" and "i < length xs"
    and "\<forall>j. i < j \<and> j < length xs \<longrightarrow>
           map_sum id fst (entry (xs ! j)) \<noteq> map_sum id fst (entry (xs ! i))"
  shows "entry (xs ! i) = Inr (kvs ! i) \<and>
         getitem (dict_of kvs) (fst (kvs ! i)) = Inr (snd (kvs ! i))"
proof -
  have len: "length kvs = length xs"
    by (rule map_raise_Inr_length [OF assms(1)])
  have nth: "entry (xs ! j) = Inr (kvs ! j)" if "j < length xs" for j
    by (rule map_raise_Inr_nth [OF assms(1) that])
  have "\<forall>j. i < j \<and> j < length kvs \<longrightarrow> fst (kvs ! j) \<noteq> fst (kvs ! i)"
  proof (intro allI impI)
    fix j assume j: "i < j \<and> j < length kvs"
    with assms(3) len have "map_sum id fst (entry (xs ! j)) \<noteq> map_sum id fst (entry (xs ! i))"
      by simp
    with nth [of j] nth [of i] j len assms(2) show "fst (kvs ! j) \<noteq> fst (kvs ! i)"
      by simp
  qed
  with map_of_rev_last [of i kvs] assms(2) len
  have "map_of (rev kvs) (fst (kvs ! i)) = Some (snd (kvs ! i))"
    by simp
  then show ?thesis
    using nth [OF assms(2)] by (simp add: getitem_def map_of_dict_of)
qed

text \<open>The table holds, for a definition, the formats of its levels in document order.\<close>

lemma table_last:
  assumes "abstractNumId2numFmts qn root = Inr table"
    and "i < length (findall root (qn ''w:abstractNum''))"
    and "\<forall>j. i < j \<and> j < length (findall root (qn ''w:abstractNum'')) \<longrightarrow>
           getitem (attrib (findall root (qn ''w:abstractNum'') ! j)) (qn ''w:abstractNumId'')
           \<noteq> getitem (attrib (findall root (qn ''w:abstractNum'') ! i)) (qn ''w:abstractNumId'')"
  shows "\<exists>k fmts.
           getitem (attrib (findall root (qn ''w:abstractNum'') ! i)) (qn ''w:abstractNumId'')
             = Inr k \<and>
           map (lvl_numFmt qn) (findall (findall root (qn ''w:abstractNum'') ! i) (qn ''w:lvl''))
             = map Inr fmts \<and>
           getitem table k = Inr fmts"
proof -
  let ?as = "findall root (qn ''w:abstractNum'')"
  from assms(1) obtain kvs where
    kvs: "map_raise (abstractNum_entry qn) ?as = Inr kvs" and table: "table = dict_of kvs"
    by (auto simp: abstractNumId2numFmts_entries split: sum.splits)
  have key: "map_sum id fst (abstractNum_entry qn (?as ! j))
      = getitem (attrib (?as ! j)) (qn ''w:abstractNumId'')" if "j < length ?as" for j
  proof -
    from map_raise_Inr_nth [OF kvs that] obtain k v where
      e: "abstractNum_entry qn (?as ! j) = Inr (k, v)"
      by (cases "kvs ! j") simp
    then have "getitem (attrib (?as ! j)) (qn ''w:abstractNumId'') = Inr k"
      by (simp add: abstractNum_entry_Inr)
    with e show ?thesis by simp
  qed
  have "\<forall>j. i < j \<and> j < length ?as \<longrightarrow>
      map_sum id fst (abstractNum_entry qn (?as ! j))
      \<noteq> map_sum id fst (abstractNum_entry qn (?as ! i))"
    using assms(2,3) key by simp
  moreover obtain k v where "kvs ! i = (k, v)" by (cases "kvs ! i")
  ultimately have "abstractNum_entry qn (?as ! i) = Inr (k, v)"
    and "getitem table k = Inr v"
    using entries_last [OF kvs assms(2)] table by simp_all
  then show ?thesis
    by (simp add: abstractNum_entry_Inr)
qed

text \<open>
  C6. When \<^verbatim>\<open>collect_numFmts\<close> returns the index, the first loop has built the table
  \<^verbatim>\<open>abstractNumId2numFmts\<close>, and for every \<^verbatim>\<open>w:num\<close> element (the last one with its
  \<^verbatim>\<open>w:numId\<close>, when several have the same) the abstract id that it references is a key
  of the table and the index maps the \<^verbatim>\<open>w:numId\<close> to the format list that the table
  holds for that abstract id.
\<close>

theorem index_matches_table:
  assumes "fromstring xml = Inr root"
    and "collect_numFmts fromstring qn xml = Inr index"
    and "i < length (findall root (qn ''w:num''))"
    and "\<forall>j. i < j \<and> j < length (findall root (qn ''w:num'')) \<longrightarrow>
           getitem (attrib (findall root (qn ''w:num'') ! j)) (qn ''w:numId'')
           \<noteq> getitem (attrib (findall root (qn ''w:num'') ! i)) (qn ''w:numId'')"
  shows "\<exists>table numId abstractNumId fmts.
           abstractNumId2numFmts qn root = Inr table \<and>
           getitem (attrib (findall root (qn ''w:num'') ! i)) (qn ''w:numId'') = Inr numId \<and>
           num_abstractNumId qn (findall root (qn ''w:num'') ! i) = Inr abstractNumId \<and>
           getitem table abstractNumId = Inr fmts \<and>
           getitem index numId = Inr fmts"
proof -
  let ?nums = "findall root (qn ''w:num'')"
  from assms(1,2) obtain table where
    table: "abstractNumId2numFmts qn root = Inr table"
    and idx: "numId2numFmts_of qn table root = Inr index"
    by (auto simp: collect_numFmts_def split: sum.splits)
  from idx obtain kvs where
    kvs: "map_raise (num_entry qn table) ?nums = Inr kvs" and index: "index = dict_of kvs"
    by (auto simp: numId2numFmts_of_entries split: sum.splits)
  have key: "map_sum id fst (num_entry qn table (?nums ! j))
      = getitem (attrib (?nums ! j)) (qn ''w:numId'')" if "j < length ?nums" for j
  proof -
    from map_raise_Inr_nth [OF kvs that] obtain k v where
      e: "num_entry qn table (?nums ! j) = Inr (k, v)"
      by (cases "kvs ! j") simp
    then have "getitem (attrib (?nums ! j)) (qn ''w:numId'') = Inr k"
      by (simp add: num_entry_Inr)
    with e show ?thesis by simp
  qed
  have "\<forall>j. i < j \<and> j < length ?nums \<longrightarrow>
      map_sum id fst (num_entry qn table (?nums ! j))
      \<noteq> map_sum id fst (num_entry qn table (?nums ! i))"
    using assms(3,4) key by simp
  moreover obtain k v where "kvs ! i = (k, v)" by (cases "kvs ! i")
  ultimately have "num_entry qn table (?nums ! i) = Inr (k, v)"
    and "getitem index k = Inr v"
    using entries_last [OF kvs assms(3)] index by simp_all
  with table show ?thesis
    by (auto simp: num_entry_Inr)
qed

theorem index_matches_table_witness:
  "example_fromstring ''<numbering>'' = Inr numbering_doc \<and>
   collect_numFmts example_fromstring example_qn ''<numbering>'' = Inr example_numFmts \<and>
   (\<exists>table numId abstractNumId fmts.
      abstractNumId2numFmts example_qn numbering_doc = Inr table \<and>
      getitem (attrib (findall numbering_doc (example_qn ''w:num'') ! 0))
        (example_qn ''w:numId'') = Inr numId \<and>
      num_abstractNumId example_qn (findall numbering_doc (example_qn ''w:num'') ! 0)
        = Inr abstractNumId \<and>
      getitem table abstractNumId = Inr fmts \<and>
      getitem example_numFmts numId = Inr fmts)"
proof -
  have parses: "example_fromstring ''<numbering>'' = Inr numbering_doc"
    by code_simp
  have returns: "collect_numFmts example_fromstring example_qn ''<numbering>''
      = Inr example_numFmts"
    by code_simp
  have nums: "findall numbering_doc (example_qn ''w:num'') = [w_num ''1'' ''0'', w_num ''2'' ''5'']"
    by code_simp
  have differ: "getitem (attrib (w_num ''2'' ''5'')) (example_qn ''w:numId'')
      \<noteq> getitem (attrib (w_num ''1'' ''0'')) (example_qn ''w:numId'')"
    by code_simp
  have first: "0 < length (findall numbering_doc (example_qn ''w:num''))"
    by (simp add: nums)
  have last: "\<forall>j. 0 < j \<and> j < length (findall numbering_doc (example_qn ''w:num'')) \<longrightarrow>
      getitem (attrib (findall numbering_doc (example_qn ''w:num'') ! j)) (example_qn ''w:numId'')
      \<noteq> getitem (attrib (findall numbering_doc (example_qn ''w:num'') ! 0))
          (example_qn ''w:numId'')"
  proof (intro allI impI)
    fix j :: nat
    assume "0 < j \<and> j < length (findall numbering_doc (example_qn ''w:num''))"
    then have "j = 1" by (simp add: nums)
    with differ show "getitem (attrib (findall numbering_doc (example_qn ''w:num'') ! j))
        (example_qn ''w:numId'')
      \<noteq> getitem (attrib (findall numbering_doc (example_qn ''w:num'') ! 0))
          (example_qn ''w:numId'')"
      by (simp add: nums)
  qed
  from index_matches_table [OF parses returns first last] parses returns
  show ?thesis by blast
qed

subsection \<open>Declared levels\<close>

lemma digit_of_digit: "n < 10 \<Longrightarrow> digit_of (''0123456789'' ! n) = n"
proof -
  assume "n < 10"
  then have "n \<in> {0, 1, 2, 3, 4, 5, 6, 7, 8, 9}" by auto
  then show ?thesis by (auto simp: digit_of_def)
qed

lemma nat_of_str: "nat_of (str n) = n"
proof (induction n rule: str.induct)
  case (1 n)
  show ?case
  proof (cases "n < 10")
    case True
    then have "str n = [''0123456789'' ! n]" by (subst str.simps) simp
    with True show ?thesis by (simp add: nat_of_def digit_of_digit)
  next
    case False
    then have "str n = str (n div 10) @ [''0123456789'' ! (n mod 10)]"
      by (subst str.simps) simp
    moreover from "1.IH" False have "nat_of (str (n div 10)) = n div 10" by simp
    ultimately show ?thesis
      by (simp add: nat_of_def digit_of_digit)
  qed
qed

lemma str_inject: "str a = str b \<longleftrightarrow> a = b"
  by (metis nat_of_str)

lemma filter_first:
  assumes "k < length xs" and "P (xs ! k)" and "\<forall>j<k. \<not> P (xs ! j)"
  shows "\<exists>rest. filter P xs = xs ! k # rest"
proof -
  have "filter P (take k xs) = []"
    using assms(1,3) by (auto simp: filter_empty_conv in_set_conv_nth)
  moreover have "xs = take k xs @ xs ! k # drop (Suc k) xs"
    using assms(1) by (simp add: id_take_nth_drop)
  ultimately have "filter P xs = xs ! k # filter P (drop (Suc k) xs)"
    using assms(2) by (metis append_Nil filter.simps(2) filter_append)
  then show ?thesis by blast
qed

lemma str_0: "str 0 = ''0''"
  by (subst str.simps) simp

lemma str_1: "str 1 = ''1''"
  by (subst str.simps) simp

lemma str_Suc_0: "str (Suc 0) = ''1''"
  using str_1 by simp

lemma str_2: "str 2 = ''2''"
  by (subst str.simps) simp

text \<open>
  C5. The docstring of \<^verbatim>\<open>collect_numFmts\<close> promises, for each \<^verbatim>\<open>numId\<close>, the formats
  by \<^verbatim>\<open>ilvl\<close>: the entry at index \<open>i\<close> is the format declared at level \<open>i\<close>. The code
  appends the formats in document order and never reads \<^verbatim>\<open>w:ilvl\<close>. For the
  definition that declares the contiguous levels 0 and 1, level 1 first in the
  document, the list has the length 2 that the claim states and the entry at index 0 is
  the format declared at level 1, not the one declared at level 0.
\<close>

theorem level_order_not_by_ilvl:
  "contiguous_levels example_qn swapped_abstractNum 1 \<and>
   abstractNumId2numFmts example_qn numbering_swapped = Inr [(''0'', [''bullet'', ''decimal''])] \<and>
   collect_numFmts example_fromstring example_qn ''<swapped>''
     = Inr [(''1'', [''bullet'', ''decimal''])] \<and>
   level_numFmt example_qn swapped_abstractNum 0 = Some ''decimal'' \<and>
   level_numFmt example_qn swapped_abstractNum 0 \<noteq> Some ([''bullet'', ''decimal''] ! 0)"
proof -
  have lvls: "findall swapped_abstractNum (example_qn ''w:lvl'')
      = [w_lvl ''1'' ''bullet'', w_lvl ''0'' ''decimal'']"
    by code_simp
  have declared: "map (ilvl example_qn) [w_lvl ''1'' ''bullet'', w_lvl ''0'' ''decimal'']
      = [Some ''1'', Some ''0'']"
    by code_simp
  have "map (\<lambda>i. Some (str i)) [0..<Suc 1] = [Some ''0'', Some ''1'']"
    by (simp add: str_0 str_Suc_0)
  with lvls declared have contiguous: "contiguous_levels example_qn swapped_abstractNum 1"
    by (auto simp: contiguous_levels_def Let_def)
  have table: "abstractNumId2numFmts example_qn numbering_swapped
      = Inr [(''0'', [''bullet'', ''decimal''])]"
    by code_simp
  have index: "collect_numFmts example_fromstring example_qn ''<swapped>''
      = Inr [(''1'', [''bullet'', ''decimal''])]"
    by code_simp
  have level: "level_numFmt example_qn swapped_abstractNum 0 = Some ''decimal''"
    unfolding level_numFmt_def str_0 by code_simp
  from contiguous table index level show ?thesis by simp
qed

text \<open>
  When the \<^verbatim>\<open>w:lvl\<close> children of a definition declare, in document order, the levels
  \<open>0, 1, ..., n\<close>, document order is level order, and the list of the table is by
  level: it has length \<open>n + 1\<close> and its entry at every index \<open>k \<le> n\<close> is the format
  declared at level \<open>k\<close>.
\<close>

lemma formats_in_document_order:
  assumes "abstractNumId2numFmts qn root = Inr table"
    and "i < length (findall root (qn ''w:abstractNum''))"
    and "\<forall>j. i < j \<and> j < length (findall root (qn ''w:abstractNum'')) \<longrightarrow>
           getitem (attrib (findall root (qn ''w:abstractNum'') ! j)) (qn ''w:abstractNumId'')
           \<noteq> getitem (attrib (findall root (qn ''w:abstractNum'') ! i)) (qn ''w:abstractNumId'')"
    and "map (ilvl qn) (findall (findall root (qn ''w:abstractNum'') ! i) (qn ''w:lvl''))
           = map (\<lambda>k. Some (str k)) [0..<Suc n]"
  shows "\<exists>abstractNumId fmts.
           getitem (attrib (findall root (qn ''w:abstractNum'') ! i)) (qn ''w:abstractNumId'')
             = Inr abstractNumId \<and>
           getitem table abstractNumId = Inr fmts \<and>
           length fmts = Suc n \<and>
           (\<forall>k\<le>n. level_numFmt qn (findall root (qn ''w:abstractNum'') ! i) k
                      = Some (fmts ! k))"
proof -
  let ?a = "findall root (qn ''w:abstractNum'') ! i"
  let ?lvls = "findall ?a (qn ''w:lvl'')"
  from table_last [OF assms(1,2,3)] obtain abstractNumId fmts where
    id: "getitem (attrib ?a) (qn ''w:abstractNumId'') = Inr abstractNumId"
    and fmts: "map (lvl_numFmt qn) ?lvls = map Inr fmts"
    and entry: "getitem table abstractNumId = Inr fmts"
    by blast
  have "length (map (ilvl qn) ?lvls) = length (map (\<lambda>k. Some (str k)) [0..<Suc n])"
    by (simp only: assms(4))
  then have len: "length ?lvls = Suc n"
    by (simp only: length_map length_upt)
  have len': "length fmts = length ?lvls"
    using arg_cong [OF fmts, of length] by (simp only: length_map)
  have declared: "ilvl qn (?lvls ! k) = Some (str k)" if "k \<le> n" for k
  proof -
    from that len have "ilvl qn (?lvls ! k) = map (ilvl qn) ?lvls ! k"
      by simp
    also have "\<dots> = map (\<lambda>k. Some (str k)) [0..<Suc n] ! k"
      by (simp only: assms(4))
    also from that have "\<dots> = Some (str k)"
      by (simp del: upt_Suc)
    finally show ?thesis .
  qed
  have level: "level_numFmt qn ?a k = Some (fmts ! k)" if "k \<le> n" for k
  proof -
    let ?P = "\<lambda>lvl. ilvl qn lvl = Some (str k)"
    from that len have k: "k < length ?lvls" by simp
    have "\<forall>j<k. \<not> ?P (?lvls ! j)"
    proof (intro allI impI)
      fix j assume "j < k"
      with that have "j \<le> n" and "j \<noteq> k" by simp_all
      from declared [OF this(1)] this(2) show "\<not> ?P (?lvls ! j)"
        by (simp add: str_inject)
    qed
    from filter_first [of k ?lvls ?P, OF k declared [OF that] this]
    obtain rest where first: "filter ?P ?lvls = ?lvls ! k # rest" ..
    from k have "lvl_numFmt qn (?lvls ! k) = map (lvl_numFmt qn) ?lvls ! k"
      by simp
    also have "\<dots> = map Inr fmts ! k"
      by (simp only: fmts)
    also from k len' have "\<dots> = Inr (fmts ! k)"
      by simp
    finally have "lvl_numFmt qn (?lvls ! k) = Inr (fmts ! k)" .
    with first show ?thesis by (simp add: level_numFmt_def)
  qed
  from len len' have "length fmts = Suc n" by simp
  with id entry level show ?thesis by blast
qed

subsection \<open>When numbering resolution fails\<close>

lemma map_raise_returns_iff:
  "(\<exists>ys. map_raise f xs = Inr ys) \<longleftrightarrow> (\<forall>x\<in>set xs. \<not> isl (f x))"
proof
  assume "\<exists>ys. map_raise f xs = Inr ys"
  then obtain ys where ys: "map_raise f xs = Inr ys" ..
  show "\<forall>x\<in>set xs. \<not> isl (f x)"
  proof
    fix x assume "x \<in> set xs"
    from map_raise_mem [OF ys this] show "\<not> isl (f x)" by auto
  qed
next
  assume "\<forall>x\<in>set xs. \<not> isl (f x)"
  then have "\<forall>x\<in>set xs. \<exists>y. f x = Inr y"
    by (metis isl_def sum.exhaust_sel)
  then show "\<exists>ys. map_raise f xs = Inr ys"
    by (rule map_raise_total)
qed

lemma abstractNum_entry_returns:
  "\<not> isl (abstractNum_entry qn a) \<longleftrightarrow>
     \<not> isl (getitem (attrib a) (qn ''w:abstractNumId'')) \<and>
     (\<forall>lvl\<in>set (findall a (qn ''w:lvl'')). \<not> isl (lvl_numFmt qn lvl))"
proof (cases "getitem (attrib a) (qn ''w:abstractNumId'')")
  case (Inl e)
  then show ?thesis by (simp add: abstractNum_entry_def)
next
  case (Inr k)
  show ?thesis
  proof (cases "map_raise (lvl_numFmt qn) (findall a (qn ''w:lvl''))")
    case (Inl e)
    with map_raise_returns_iff [of "lvl_numFmt qn" "findall a (qn ''w:lvl'')"] Inr
    show ?thesis by (simp add: abstractNum_entry_def)
  next
    case inr: (Inr fmts)
    with map_raise_returns_iff [of "lvl_numFmt qn" "findall a (qn ''w:lvl'')"] Inr
    show ?thesis by (simp add: abstractNum_entry_def)
  qed
qed

lemma num_entry_returns:
  "\<not> isl (num_entry qn table num) \<longleftrightarrow>
     \<not> isl (getitem (attrib num) (qn ''w:numId'')) \<and>
     \<not> isl (num_abstractNumId qn num) \<and>
     (\<forall>r. num_abstractNumId qn num = Inr r \<longrightarrow> \<not> isl (getitem table r))"
  by (auto simp: num_entry_def split: sum.splits)

text \<open>The keys of the table are the ids of the abstract definitions.\<close>

lemma table_keys:
  assumes "abstractNumId2numFmts qn root = Inr table"
  shows "\<not> isl (getitem table r) \<longleftrightarrow>
         Inr r \<in> set (map (\<lambda>a. getitem (attrib a) (qn ''w:abstractNumId''))
                        (findall root (qn ''w:abstractNum'')))"
proof -
  let ?as = "findall root (qn ''w:abstractNum'')"
  from assms obtain kvs where
    kvs: "map_raise (abstractNum_entry qn) ?as = Inr kvs" and table: "table = dict_of kvs"
    by (auto simp: abstractNumId2numFmts_entries split: sum.splits)
  have "\<not> isl (getitem table r) \<longleftrightarrow> r \<in> set (keys table)"
    using getitem_Inl_iff [of table r] by (cases "getitem table r") auto
  also have "\<dots> \<longleftrightarrow> r \<in> fst ` set kvs"
    by (simp add: table keys_dict_of)
  also have "\<dots> \<longleftrightarrow> (\<exists>a\<in>set ?as. getitem (attrib a) (qn ''w:abstractNumId'') = Inr r)"
  proof
    assume "r \<in> fst ` set kvs"
    then obtain v where "(r, v) \<in> set kvs" by auto
    from map_raise_set [OF kvs this] obtain a where
      "a \<in> set ?as" and "abstractNum_entry qn a = Inr (r, v)"
      by blast
    then show "\<exists>a\<in>set ?as. getitem (attrib a) (qn ''w:abstractNumId'') = Inr r"
      by (auto simp: abstractNum_entry_Inr)
  next
    assume "\<exists>a\<in>set ?as. getitem (attrib a) (qn ''w:abstractNumId'') = Inr r"
    then obtain a where a: "a \<in> set ?as"
      and r: "getitem (attrib a) (qn ''w:abstractNumId'') = Inr r"
      by blast
    from map_raise_mem [OF kvs a] obtain k v where
      e: "abstractNum_entry qn a = Inr (k, v)" and mem: "(k, v) \<in> set kvs"
      by (metis prod.exhaust)
    from e r have "k = r" by (simp add: abstractNum_entry_Inr)
    with mem show "r \<in> fst ` set kvs" by force
  qed
  also have "\<dots> \<longleftrightarrow> Inr r \<in> set (map (\<lambda>a. getitem (attrib a) (qn ''w:abstractNumId'')) ?as)"
  proof
    assume "\<exists>a\<in>set ?as. getitem (attrib a) (qn ''w:abstractNumId'') = Inr r"
    then obtain a where a: "a \<in> set ?as"
      and eq: "getitem (attrib a) (qn ''w:abstractNumId'') = Inr r"
      by blast
    have "Inr r \<in> (\<lambda>a. getitem (attrib a) (qn ''w:abstractNumId'')) ` set ?as"
      by (rule image_eqI [where x = a]) (simp_all add: a eq)
    then show "Inr r \<in> set (map (\<lambda>a. getitem (attrib a) (qn ''w:abstractNumId'')) ?as)"
      by simp
  next
    assume "Inr r \<in> set (map (\<lambda>a. getitem (attrib a) (qn ''w:abstractNumId'')) ?as)"
    then show "\<exists>a\<in>set ?as. getitem (attrib a) (qn ''w:abstractNumId'') = Inr r"
      by auto
  qed
  finally show ?thesis .
qed

text \<open>
  C4, as the claim has it, fails: a definition that declares the levels 0 and 2 and no
  level 1 resolves to the two formats in document order, and no exception is raised.
\<close>

theorem level_gap_counterexample:
  "map (ilvl example_qn) (findall gap_abstractNum (example_qn ''w:lvl''))
     = [Some ''0'', Some ''2''] \<and>
   level_numFmt example_qn gap_abstractNum 1 = None \<and>
   \<not> contiguous_levels example_qn gap_abstractNum 1 \<and>
   collect_numFmts example_fromstring example_qn ''<gap>''
     = Inr [(''1'', [''decimal'', ''bullet''])]"
proof -
  have declared: "map (ilvl example_qn) (findall gap_abstractNum (example_qn ''w:lvl''))
      = [Some ''0'', Some ''2'']"
    by code_simp
  have "Some ''2'' \<in> set (map (ilvl example_qn) (findall gap_abstractNum (example_qn ''w:lvl'')))"
    by code_simp
  moreover have "Some ''2'' \<notin> set (map (\<lambda>i. Some (str i)) [0..<Suc 1])"
    by (simp add: str_0 str_Suc_0)
  ultimately have "set (map (ilvl example_qn) (findall gap_abstractNum (example_qn ''w:lvl'')))
      \<noteq> set (map (\<lambda>i. Some (str i)) [0..<Suc 1])"
    by blast
  then have gap: "\<not> contiguous_levels example_qn gap_abstractNum 1"
    by (simp add: contiguous_levels_def Let_def)
  have missing: "level_numFmt example_qn gap_abstractNum 1 = None"
    unfolding level_numFmt_def str_1 by code_simp
  have index: "collect_numFmts example_fromstring example_qn ''<gap>''
      = Inr [(''1'', [''decimal'', ''bullet''])]"
    by code_simp
  show ?thesis
    by (rule conjI [OF declared conjI [OF missing conjI [OF gap index]]])
qed

text \<open>When numbering resolution returns, through the reads of the two loops.\<close>

lemma collect_numFmts_returns_iff:
  assumes "fromstring xml = Inr root"
  shows "(\<exists>index. collect_numFmts fromstring qn xml = Inr index) \<longleftrightarrow>
           (\<forall>a\<in>set (findall root (qn ''w:abstractNum'')).
              \<not> isl (getitem (attrib a) (qn ''w:abstractNumId'')) \<and>
              (\<forall>lvl\<in>set (findall a (qn ''w:lvl'')). \<not> isl (lvl_numFmt qn lvl))) \<and>
           (\<forall>num\<in>set (findall root (qn ''w:num'')).
              \<not> isl (getitem (attrib num) (qn ''w:numId'')) \<and>
              \<not> isl (num_abstractNumId qn num) \<and>
              num_abstractNumId qn num
                \<in> set (map (\<lambda>a. getitem (attrib a) (qn ''w:abstractNumId''))
                         (findall root (qn ''w:abstractNum''))))"
    (is "?returns \<longleftrightarrow> ?abstract \<and> ?concrete")
proof -
  let ?as = "findall root (qn ''w:abstractNum'')"
  let ?nums = "findall root (qn ''w:num'')"
  have first: "(\<exists>table. abstractNumId2numFmts qn root = Inr table) \<longleftrightarrow> ?abstract"
  proof -
    have "(\<exists>table. abstractNumId2numFmts qn root = Inr table)
        \<longleftrightarrow> (\<exists>kvs. map_raise (abstractNum_entry qn) ?as = Inr kvs)"
      by (auto simp: abstractNumId2numFmts_entries split: sum.splits)
    also have "\<dots> \<longleftrightarrow> (\<forall>a\<in>set ?as. \<not> isl (abstractNum_entry qn a))"
      by (rule map_raise_returns_iff)
    also have "\<dots> \<longleftrightarrow> ?abstract"
      by (simp only: abstractNum_entry_returns)
    finally show ?thesis .
  qed
  have second: "(\<exists>index. numId2numFmts_of qn table root = Inr index) \<longleftrightarrow> ?concrete"
    if table: "abstractNumId2numFmts qn root = Inr table" for table
  proof -
    have "(\<exists>index. numId2numFmts_of qn table root = Inr index)
        \<longleftrightarrow> (\<exists>kvs. map_raise (num_entry qn table) ?nums = Inr kvs)"
      by (auto simp: numId2numFmts_of_entries split: sum.splits)
    also have "\<dots> \<longleftrightarrow> (\<forall>num\<in>set ?nums. \<not> isl (num_entry qn table num))"
      by (rule map_raise_returns_iff)
    also have "\<dots> \<longleftrightarrow> ?concrete"
    proof (intro ball_cong refl)
      fix num assume "num \<in> set ?nums"
      show "\<not> isl (num_entry qn table num) \<longleftrightarrow>
          \<not> isl (getitem (attrib num) (qn ''w:numId'')) \<and>
          \<not> isl (num_abstractNumId qn num) \<and>
          num_abstractNumId qn num
            \<in> set (map (\<lambda>a. getitem (attrib a) (qn ''w:abstractNumId'')) ?as)"
      proof (cases "num_abstractNumId qn num")
        case (Inl e)
        then show ?thesis by (simp add: num_entry_returns)
      next
        case (Inr r)
        with table_keys [OF table, of r] show ?thesis
          by (simp add: num_entry_returns)
      qed
    qed
    finally show ?thesis .
  qed
  show ?thesis
  proof (cases "abstractNumId2numFmts qn root")
    case (Inl e)
    with first have "\<not> ?abstract" by simp
    moreover from Inl assms have "\<not> ?returns" by (simp add: collect_numFmts_def)
    ultimately show ?thesis by blast
  next
    case (Inr table)
    with first have "?abstract" by simp
    moreover from Inr assms have "?returns \<longleftrightarrow> (\<exists>index. numId2numFmts_of qn table root = Inr index)"
      by (simp add: collect_numFmts_def)
    ultimately show ?thesis using second [OF Inr] by blast
  qed
qed

text \<open>The reads, in terms of the element tree.\<close>

lemma getitem_returns: "\<not> isl (getitem d k) \<longleftrightarrow> k \<in> fst ` set d"
proof (cases "map_of d k")
  case None
  then have "k \<notin> fst ` set d" by (simp add: map_of_eq_None_iff)
  with None show ?thesis by (simp add: getitem_def)
next
  case (Some v)
  then have "k \<in> fst ` set d" by (metis map_of_eq_None_iff option.distinct(1))
  with Some show ?thesis by (simp add: getitem_def)
qed

lemma lvl_numFmt_returns:
  "\<not> isl (lvl_numFmt qn lvl) \<longleftrightarrow>
     (\<exists>numFmt. find_elem lvl (qn ''w:numFmt'') = Some numFmt \<and>
        qn ''w:val'' \<in> fst ` set (attrib numFmt))"
  by (cases "find_elem lvl (qn ''w:numFmt'')") (simp_all add: lvl_numFmt_def getitem_returns)

lemma num_reference_returns:
  "\<not> isl (num_abstractNumId qn num) \<and>
   num_abstractNumId qn num \<in> set (map (\<lambda>a. getitem (attrib a) (qn ''w:abstractNumId'')) as)
   \<longleftrightarrow>
     (\<exists>r v. find_elem num (qn ''w:abstractNumId'') = Some r \<and>
        map_of (attrib r) (qn ''w:val'') = Some v \<and>
        (\<exists>a\<in>set as. map_of (attrib a) (qn ''w:abstractNumId'') = Some v))"
proof (cases "find_elem num (qn ''w:abstractNumId'')")
  case None
  then show ?thesis by (simp add: num_abstractNumId_def)
next
  case (Some r)
  show ?thesis
  proof (cases "map_of (attrib r) (qn ''w:val'')")
    case None
    with Some show ?thesis by (simp add: num_abstractNumId_def getitem_def)
  next
    case v: (Some v)
    have "(Inr v = getitem d (qn ''w:abstractNumId'')) = (map_of d (qn ''w:abstractNumId'') = Some v)"
      for d :: "(string, string) dict"
      using getitem_Inr_iff [of d "qn ''w:abstractNumId''" v] by auto
    then have "Inr v \<in> (\<lambda>a. getitem (attrib a) (qn ''w:abstractNumId'')) ` set as
        \<longleftrightarrow> (\<exists>a\<in>set as. map_of (attrib a) (qn ''w:abstractNumId'') = Some v)"
      by (simp only: image_iff)
    moreover from Some v have "num_abstractNumId qn num = Inr v"
      by (simp add: num_abstractNumId_def getitem_def)
    ultimately show ?thesis using Some v by simp
  qed
qed

text \<open>
  C4, as the code has it. A definition whose declared level indices (\<^verbatim>\<open>w:ilvl\<close>) have
  a gap raises no error on that account: the condition under which \<^verbatim>\<open>collect_numFmts\<close>
  returns does not involve them. \<^verbatim>\<open>collect_numFmts\<close> returns the index exactly when
  every \<^verbatim>\<open>w:abstractNum\<close> has the attribute \<^verbatim>\<open>w:abstractNumId\<close>, the first
  \<^verbatim>\<open>w:numFmt\<close> child of every \<^verbatim>\<open>w:lvl\<close> of it is there and has the attribute
  \<^verbatim>\<open>w:val\<close>, every \<^verbatim>\<open>w:num\<close> has the attribute \<^verbatim>\<open>w:numId\<close>, and the first
  \<^verbatim>\<open>w:abstractNumId\<close> child of every \<^verbatim>\<open>w:num\<close> is there and has an attribute
  \<^verbatim>\<open>w:val\<close> whose value is the \<^verbatim>\<open>w:abstractNumId\<close> of a \<^verbatim>\<open>w:abstractNum\<close> of the
  part.
\<close>

theorem numbering_fails_only_on_missing_reads:
  assumes "fromstring xml = Inr root"
  shows "(\<exists>index. collect_numFmts fromstring qn xml = Inr index) \<longleftrightarrow>
           (\<forall>a\<in>set (findall root (qn ''w:abstractNum'')).
              qn ''w:abstractNumId'' \<in> fst ` set (attrib a) \<and>
              (\<forall>lvl\<in>set (findall a (qn ''w:lvl'')).
                 \<exists>numFmt. find_elem lvl (qn ''w:numFmt'') = Some numFmt \<and>
                   qn ''w:val'' \<in> fst ` set (attrib numFmt))) \<and>
           (\<forall>num\<in>set (findall root (qn ''w:num'')).
              qn ''w:numId'' \<in> fst ` set (attrib num) \<and>
              (\<exists>r v. find_elem num (qn ''w:abstractNumId'') = Some r \<and>
                 map_of (attrib r) (qn ''w:val'') = Some v \<and>
                 (\<exists>a\<in>set (findall root (qn ''w:abstractNum'')).
                    map_of (attrib a) (qn ''w:abstractNumId'') = Some v)))"
proof -
  let ?as = "findall root (qn ''w:abstractNum'')"
  have abstract: "(\<forall>a\<in>set ?as.
        \<not> isl (getitem (attrib a) (qn ''w:abstractNumId'')) \<and>
        (\<forall>lvl\<in>set (findall a (qn ''w:lvl'')). \<not> isl (lvl_numFmt qn lvl)))
      \<longleftrightarrow>
      (\<forall>a\<in>set ?as.
        qn ''w:abstractNumId'' \<in> fst ` set (attrib a) \<and>
        (\<forall>lvl\<in>set (findall a (qn ''w:lvl'')).
           \<exists>numFmt. find_elem lvl (qn ''w:numFmt'') = Some numFmt \<and>
             qn ''w:val'' \<in> fst ` set (attrib numFmt)))"
    by (simp only: getitem_returns lvl_numFmt_returns)
  have concrete: "(\<forall>num\<in>set (findall root (qn ''w:num'')).
        \<not> isl (getitem (attrib num) (qn ''w:numId'')) \<and>
        \<not> isl (num_abstractNumId qn num) \<and>
        num_abstractNumId qn num
          \<in> set (map (\<lambda>a. getitem (attrib a) (qn ''w:abstractNumId'')) ?as))
      \<longleftrightarrow>
      (\<forall>num\<in>set (findall root (qn ''w:num'')).
        qn ''w:numId'' \<in> fst ` set (attrib num) \<and>
        (\<exists>r v. find_elem num (qn ''w:abstractNumId'') = Some r \<and>
           map_of (attrib r) (qn ''w:val'') = Some v \<and>
           (\<exists>a\<in>set ?as. map_of (attrib a) (qn ''w:abstractNumId'') = Some v)))"
    by (simp only: getitem_returns num_reference_returns)
  from collect_numFmts_returns_iff [of fromstring xml root qn, OF assms] abstract concrete
  show ?thesis by (simp only:)
qed

theorem numbering_fails_only_on_missing_reads_witness:
  "example_fromstring ''<gap>'' = Inr numbering_gap \<and>
   collect_numFmts example_fromstring example_qn ''<gap>''
     = Inr [(''1'', [''decimal'', ''bullet''])] \<and>
   list_all
     (\<lambda>a. example_qn ''w:abstractNumId'' \<in> fst ` set (attrib a) \<and>
          list_all
            (\<lambda>lvl. \<exists>numFmt. find_elem lvl (example_qn ''w:numFmt'') = Some numFmt \<and>
                    example_qn ''w:val'' \<in> fst ` set (attrib numFmt))
            (findall a (example_qn ''w:lvl'')))
     (findall numbering_gap (example_qn ''w:abstractNum'')) \<and>
   list_all
     (\<lambda>num. example_qn ''w:numId'' \<in> fst ` set (attrib num) \<and>
          (\<exists>r v. find_elem num (example_qn ''w:abstractNumId'') = Some r \<and>
             map_of (attrib r) (example_qn ''w:val'') = Some v \<and>
             (\<exists>a\<in>set (findall numbering_gap (example_qn ''w:abstractNum'')).
                map_of (attrib a) (example_qn ''w:abstractNumId'') = Some v)))
     (findall numbering_gap (example_qn ''w:num''))"
proof -
  have parses: "example_fromstring ''<gap>'' = Inr numbering_gap"
    by code_simp
  have returns: "collect_numFmts example_fromstring example_qn ''<gap>''
      = Inr [(''1'', [''decimal'', ''bullet''])]"
    by code_simp
  then have "\<exists>index. collect_numFmts example_fromstring example_qn ''<gap>'' = Inr index"
    by (rule exI)
  with numbering_fails_only_on_missing_reads
         [of example_fromstring "''<gap>''" numbering_gap example_qn, OF parses] parses returns
  show ?thesis by (simp only: simp_thms list_all_iff)
qed

section \<open>Document properties\<close>













section \<open>Image extraction\<close>

lemma image_body_entry:
  "image_body get_path zipf images x =
     (case image_entry get_path zipf x of
        Inl e \<Rightarrow> Inl e
      | Inr (k, v) \<Rightarrow> Inr (dict_set images k v))"
  by (simp add: image_body_def image_entry_def split: sum.splits file_value.splits)

lemma image_entry_Inr:
  "image_entry get_path zipf x = Inr (k, v) \<longleftrightarrow>
     (\<exists>target path.
        getitem x ''Target'' = Inr (Str target) \<and> get_path x = Inr path \<and>
        read zipf path = Inr v \<and> k = basename target)"
  by (auto simp: image_entry_def split: sum.splits file_value.splits)

lemma pull_image_files_entries:
  assumes "pull_image_files filter_files_by_type get_path write_images zipf ctx image_directory
             = Inr images"
  shows "\<exists>files image_files entries.
           getitem ctx ''files'' = Inr (Files files) \<and>
           filter_files_by_type files ''image'' = Inr image_files \<and>
           map_raise (image_entry get_path zipf) image_files = Inr entries \<and>
           images = dict_of entries"
proof -
  from assms obtain files where files: "getitem ctx ''files'' = Inr (Files files)"
    by (auto simp: pull_image_files_def split: sum.splits ctx_value.splits)
  with assms obtain image_files where
    image_files: "filter_files_by_type files ''image'' = Inr image_files"
    by (auto simp: pull_image_files_def split: sum.splits)
  have loop: "for_loop (image_body get_path zipf) [] image_files =
      (case map_raise (image_entry get_path zipf) image_files of
         Inl e \<Rightarrow> Inl e
       | Inr kvs \<Rightarrow> Inr (dict_of kvs))"
    by (rule for_loop_entries_dict_of) (rule image_body_entry)
  from assms files image_files
  have "for_loop (image_body get_path zipf) [] image_files = Inr images"
    by (auto simp: pull_image_files_def split: sum.splits option.splits)
  with loop obtain entries where
    "map_raise (image_entry get_path zipf) image_files = Inr entries"
    and "images = dict_of entries"
    by (auto split: sum.splits)
  with files image_files show ?thesis by blast
qed

text \<open>
  C9. When \<^verbatim>\<open>pull_image_files\<close> returns the mapping, every image record of the context
  (what \<^verbatim>\<open>filter_files_by_type\<close> keeps, in order) has a target and a path that the
  archive holds; the keys of the mapping are the base names of the targets; and under
  the base name of a record the mapping holds the bytes of the last record with that
  base name: an earlier record with the same base name is overwritten.
\<close>

theorem images_keyed_by_basename:
  assumes "pull_image_files filter_files_by_type get_path write_images zipf ctx image_directory
             = Inr images"
  shows "\<exists>files image_files entries.
           getitem ctx ''files'' = Inr (Files files) \<and>
           filter_files_by_type files ''image'' = Inr image_files \<and>
           length entries = length image_files \<and>
           (\<forall>i<length image_files.
              \<exists>target path.
                getitem (image_files ! i) ''Target'' = Inr (Str target) \<and>
                get_path (image_files ! i) = Inr path \<and>
                read zipf path = Inr (snd (entries ! i)) \<and>
                fst (entries ! i) = basename target) \<and>
           set (keys images) = fst ` set entries \<and>
           (\<forall>i j. i \<le> j \<and> j < length entries \<and> fst (entries ! i) = fst (entries ! j) \<and>
                  (\<forall>k. j < k \<and> k < length entries \<longrightarrow> fst (entries ! k) \<noteq> fst (entries ! j))
                  \<longrightarrow> getitem images (fst (entries ! i)) = Inr (snd (entries ! j)))"
proof -
  from pull_image_files_entries [OF assms] obtain files image_files entries where
    files: "getitem ctx ''files'' = Inr (Files files)"
    and image_files: "filter_files_by_type files ''image'' = Inr image_files"
    and entries: "map_raise (image_entry get_path zipf) image_files = Inr entries"
    and images: "images = dict_of entries"
    by blast
  have len: "length entries = length image_files"
    by (rule map_raise_Inr_length [OF entries])
  have each: "\<forall>i<length image_files.
      \<exists>target path.
        getitem (image_files ! i) ''Target'' = Inr (Str target) \<and>
        get_path (image_files ! i) = Inr path \<and>
        read zipf path = Inr (snd (entries ! i)) \<and>
        fst (entries ! i) = basename target"
  proof (intro allI impI)
    fix i assume "i < length image_files"
    from map_raise_Inr_nth [OF entries this]
    have "image_entry get_path zipf (image_files ! i) = Inr (fst (entries ! i), snd (entries ! i))"
      by simp
    then show "\<exists>target path.
        getitem (image_files ! i) ''Target'' = Inr (Str target) \<and>
        get_path (image_files ! i) = Inr path \<and>
        read zipf path = Inr (snd (entries ! i)) \<and>
        fst (entries ! i) = basename target"
      by (simp only: image_entry_Inr)
  qed
  have keys: "set (keys images) = fst ` set entries"
    by (simp add: images keys_dict_of)
  have last: "getitem images (fst (entries ! i)) = Inr (snd (entries ! j))"
    if "i \<le> j" and j: "j < length entries" and same: "fst (entries ! i) = fst (entries ! j)"
      and none: "\<forall>k. j < k \<and> k < length entries \<longrightarrow> fst (entries ! k) \<noteq> fst (entries ! j)"
    for i j
  proof -
    from map_of_rev_last [OF j none]
    have "map_of (rev entries) (fst (entries ! j)) = Some (snd (entries ! j))" .
    with same show ?thesis
      by (simp add: images getitem_def map_of_dict_of)
  qed
  from files image_files len each keys last show ?thesis by blast
qed

theorem images_keyed_by_basename_witness:
  "pull_image_files spec_filter_files_by_type spec_get_path no_write example_docx
     example_context None = Inr [(''image1.png'', ''PNG2'')] \<and>
   (\<exists>files image_files entries.
      getitem example_context ''files'' = Inr (Files files) \<and>
      spec_filter_files_by_type files ''image'' = Inr image_files \<and>
      length entries = length image_files \<and>
      (\<forall>i<length image_files.
         \<exists>target path.
           getitem (image_files ! i) ''Target'' = Inr (Str target) \<and>
           spec_get_path (image_files ! i) = Inr path \<and>
           read example_docx path = Inr (snd (entries ! i)) \<and>
           fst (entries ! i) = basename target) \<and>
      set (keys [(''image1.png'', ''PNG2'')]) = fst ` set entries \<and>
      (\<forall>i j. i \<le> j \<and> j < length entries \<and> fst (entries ! i) = fst (entries ! j) \<and>
             (\<forall>k. j < k \<and> k < length entries \<longrightarrow> fst (entries ! k) \<noteq> fst (entries ! j))
             \<longrightarrow> getitem [(''image1.png'', ''PNG2'')] (fst (entries ! i))
                   = Inr (snd (entries ! j))))"
proof -
  have returns: "pull_image_files spec_filter_files_by_type spec_get_path no_write example_docx
      example_context None = Inr [(''image1.png'', ''PNG2'')]"
    by code_simp
  show ?thesis
    by (rule conjI [OF returns images_keyed_by_basename [OF returns]])
qed

end
